theory Spec2Isabelle
  imports Complex_Main
begin

section \<open>Numbers of \<^verbatim>\<open>src/App.tsx\<close>\<close>

text \<open>
  The pixel pipeline of the image enhancer lives in four functions of the component
  \<^verbatim>\<open>App\<close>: \<^verbatim>\<open>applyDeblur\<close>, \<^verbatim>\<open>applyDenoise\<close>, \<^verbatim>\<open>applyImageEnhancements\<close> and
  \<^verbatim>\<open>enhanceImage\<close>.

  Conventions of the embedding.
  \<^item> A JavaScript number is an IEEE 754 double: a finite value (a rational), plus or minus
    infinity, or NaN. Each arithmetic operation gives the exact result rounded to the
    nearest double, a tie going to the even significand, and infinity beyond the largest
    double. The sign of a zero is not modelled: the code never divides by a computed
    zero, and a zero of either sign is stored as the byte 0.
  \<^item> A \<^verbatim>\<open>Uint8ClampedArray\<close> is a list of naturals; a store into it goes through
    the conversion \<^verbatim>\<open>ToUint8Clamp\<close> of ECMAScript. A store at an index outside the
    array is ignored, as \<open>xs[i := v]\<close> does.
  \<^item> A read outside an array gives \<^verbatim>\<open>undefined\<close> in JavaScript. The filters read
    outside their array only for a negative radius or for an array that is not
    \<open>width * height * 4\<close> long; \<^verbatim>\<open>getImageData\<close> never returns such an array and the
    pipeline never passes a strength below zero. The theorems about values read carry
    these conditions as hypotheses.
  \<^item> Loop counters and array indices are integers, as in the source (the window offsets
    are negative); they stay far below \<open>2 ^ 53\<close>, where doubles count exactly.
\<close>

datatype number = Fin rat | PInf | NInf | NaN

subsection \<open>Rounding to the nearest double\<close>

text \<open>Round to the nearest integer, a tie going to the even one.\<close>

definition tieBreak :: "rat \<Rightarrow> int \<Rightarrow> int" where
  "tieBreak x f =
    (if x < of_int f + 1 / 2 then f
     else if x > of_int f + 1 / 2 then f + 1
     else if even f then f else f + 1)"

definition roundTiesToEven :: "rat \<Rightarrow> int" where
  "roundTiesToEven x = tieBreak x \<lfloor>x\<rfloor>"

definition pow2 :: "int \<Rightarrow> rat" where
  "pow2 t = (if 0 \<le> t then 2 ^ nat t else 1 / 2 ^ nat (- t))"

text \<open>
  A positive \<open>x\<close> is brought to the form \<open>y * 2 ^ t\<close> with a significand
  \<open>2 ^ 52 \<le> y < 2 ^ 53\<close>, or with \<open>t = - 1074\<close> and \<open>y < 2 ^ 52\<close> for a subnormal double.
  The constants are \<open>2 ^ 53 = 9007199254740992\<close>, \<open>2 ^ 52 = 4503599627370496\<close>,
  \<open>2 ^ 44 = 17592186044416\<close>, \<open>2 ^ 32 = 4294967296\<close> and \<open>2 ^ 20 = 1048576\<close>; the large
  steps only save time.
\<close>

function scaleUp :: "rat \<Rightarrow> int \<Rightarrow> rat \<times> int" where
  "scaleUp x t =
    (if 9007199254740992 * 4294967296 \<le> x then scaleUp (x / 4294967296) (t + 32)
     else if 9007199254740992 \<le> x then scaleUp (x / 2) (t + 1)
     else (x, t))"
  by pat_completeness auto
termination
proof (relation "measure (\<lambda>(x, t). nat \<lfloor>x\<rfloor>)", goal_cases)
  case 1
  show ?case by simp
next
  case (2 x t)
  have "x / 4294967296 + 1 \<le> x" using 2 by simp
  then have "\<lfloor>x / 4294967296\<rfloor> + 1 \<le> \<lfloor>x\<rfloor>"
    by (metis floor_add_int floor_mono of_int_1)
  moreover have "0 < \<lfloor>x\<rfloor>" using 2 by (simp add: less_floor_iff)
  ultimately show ?case by simp
next
  case (3 x t)
  have "x / 2 + 1 \<le> x" using 3 by simp
  then have "\<lfloor>x / 2\<rfloor> + 1 \<le> \<lfloor>x\<rfloor>"
    by (metis floor_add_int floor_mono of_int_1)
  moreover have "0 < \<lfloor>x\<rfloor>" using 3 by (simp add: less_floor_iff)
  ultimately show ?case by simp
qed

function scaleDown :: "rat \<Rightarrow> int \<Rightarrow> rat \<times> int" where
  "scaleDown x t =
    (if x < 1048576 \<and> - 1042 \<le> t then scaleDown (4294967296 * x) (t - 32)
     else if x < 17592186044416 \<and> - 1066 \<le> t then scaleDown (256 * x) (t - 8)
     else if x < 4503599627370496 \<and> - 1074 < t then scaleDown (2 * x) (t - 1)
     else (x, t))"
  by pat_completeness auto
termination
  by (relation "measure (\<lambda>(x, t). nat (t + 1074))") auto

declare scaleUp.simps [simp del] scaleDown.simps [simp del]

definition normalise :: "rat \<Rightarrow> rat \<times> int" where
  "normalise x = (case scaleUp x 0 of (y, u) \<Rightarrow> scaleDown y u)"

text \<open>
  The rounded significand \<open>m\<close> with its exponent: infinity from \<open>2 ^ 1024\<close> on, which
  is \<open>2 ^ 53 * 2 ^ 971\<close>.
\<close>

definition pack :: "bool \<Rightarrow> int \<Rightarrow> int \<Rightarrow> number" where
  "pack negative m t =
    (if 971 < t \<or> (t = 971 \<and> m = 9007199254740992)
     then (if negative then NInf else PInf)
     else Fin ((if negative then - 1 else 1) * of_int m * pow2 t))"

fun roundScaled :: "bool \<Rightarrow> rat \<times> int \<Rightarrow> number" where
  "roundScaled negative (y, t) = pack negative (roundTiesToEven y) t"

definition fl_round :: "rat \<Rightarrow> number" where
  "fl_round x = (if x = 0 then Fin 0 else roundScaled (x < 0) (normalise \<bar>x\<bar>))"

text \<open>A decimal literal of the source, such as \<^verbatim>\<open>1.1\<close>, denotes the nearest double.\<close>

definition lit :: "rat \<Rightarrow> number" where
  "lit q = fl_round q"

subsection \<open>Arithmetic\<close>

definition infinity :: "bool \<Rightarrow> number" where
  "infinity negative = (if negative then NInf else PInf)"

fun isNegative :: "number \<Rightarrow> bool" where
  "isNegative (Fin a) = (a < 0)"
| "isNegative NInf = True"
| "isNegative PInf = False"
| "isNegative NaN = False"

fun isZero :: "number \<Rightarrow> bool" where
  "isZero (Fin a) = (a = 0)"
| "isZero PInf = False"
| "isZero NInf = False"
| "isZero NaN = False"

fun fneg :: "number \<Rightarrow> number" where
  "fneg (Fin a) = Fin (- a)"
| "fneg PInf = NInf"
| "fneg NInf = PInf"
| "fneg NaN = NaN"

fun fadd :: "number \<Rightarrow> number \<Rightarrow> number" where
  "fadd (Fin a) (Fin b) = fl_round (a + b)"
| "fadd NaN b = NaN"
| "fadd a NaN = NaN"
| "fadd PInf NInf = NaN"
| "fadd NInf PInf = NaN"
| "fadd PInf b = PInf"
| "fadd a PInf = PInf"
| "fadd NInf b = NInf"
| "fadd a NInf = NInf"

fun fmul :: "number \<Rightarrow> number \<Rightarrow> number" where
  "fmul (Fin a) (Fin b) = fl_round (a * b)"
| "fmul NaN b = NaN"
| "fmul a NaN = NaN"
| "fmul a b = (if isZero a \<or> isZero b then NaN else infinity (isNegative a \<noteq> isNegative b))"

text \<open>A divisor that is zero is the positive zero wherever the code divides.\<close>

fun fdiv :: "number \<Rightarrow> number \<Rightarrow> number" where
  "fdiv (Fin a) (Fin b) =
    (if b = 0 then (if a = 0 then NaN else infinity (a < 0)) else fl_round (a / b))"
| "fdiv NaN b = NaN"
| "fdiv a NaN = NaN"
| "fdiv (Fin a) b = Fin 0"
| "fdiv a (Fin b) = infinity (isNegative a \<noteq> (b < 0))"
| "fdiv a b = NaN"

fun fless :: "number \<Rightarrow> number \<Rightarrow> bool" where
  "fless (Fin a) (Fin b) = (a < b)"
| "fless NaN b = False"
| "fless a NaN = False"
| "fless a NInf = False"
| "fless PInf b = False"
| "fless NInf b = True"
| "fless a PInf = True"

fun fabs :: "number \<Rightarrow> number" where
  "fabs (Fin a) = Fin \<bar>a\<bar>"
| "fabs PInf = PInf"
| "fabs NInf = PInf"
| "fabs NaN = NaN"

text \<open>
  The operators \<open>+\<close>, \<open>-\<close>, \<open>*\<close>, \<open>/\<close>, \<open><\<close> and \<open>\<le>\<close> of the source, on doubles, and the
  numbers \<open>0\<close> and \<open>1\<close>. Any other constant of the source is written \<open>Fin q\<close> when \<open>q\<close> is a
  double (255, 0.5, 1.5, ...), and \<open>lit q\<close> when it is not (0.8, 1.1, ...).
\<close>

instantiation number :: "{zero, one, plus, minus, uminus, times, inverse, abs, ord}"
begin

definition zero_number :: number where
  "zero_number = Fin 0"

definition one_number :: number where
  "one_number = Fin 1"

definition plus_number :: "number \<Rightarrow> number \<Rightarrow> number" where
  "plus_number a b = fadd a b"

definition uminus_number :: "number \<Rightarrow> number" where
  "uminus_number a = fneg a"

definition minus_number :: "number \<Rightarrow> number \<Rightarrow> number" where
  "minus_number a b = fadd a (fneg b)"

definition times_number :: "number \<Rightarrow> number \<Rightarrow> number" where
  "times_number a b = fmul a b"

definition divide_number :: "number \<Rightarrow> number \<Rightarrow> number" where
  "divide_number a b = fdiv a b"

definition inverse_number :: "number \<Rightarrow> number" where
  "inverse_number a = fdiv (Fin 1) a"

definition abs_number :: "number \<Rightarrow> number" where
  "abs_number a = fabs a"

definition less_number :: "number \<Rightarrow> number \<Rightarrow> bool" where
  "less_number a b = fless a b"

definition less_eq_number :: "number \<Rightarrow> number \<Rightarrow> bool" where
  "less_eq_number a b = (fless a b \<or> (a = b \<and> a \<noteq> NaN))"

instance ..

end

text \<open>\<^verbatim>\<open>Math.min\<close>, \<^verbatim>\<open>Math.max\<close> and \<^verbatim>\<open>Math.ceil\<close>.\<close>

definition mathMin :: "number \<Rightarrow> number \<Rightarrow> number" where
  "mathMin a b = (if a = NaN \<or> b = NaN then NaN else if b < a then b else a)"

definition mathMax :: "number \<Rightarrow> number \<Rightarrow> number" where
  "mathMax a b = (if a = NaN \<or> b = NaN then NaN else if a < b then b else a)"

fun mathCeil :: "number \<Rightarrow> number" where
  "mathCeil (Fin a) = Fin (of_int \<lceil>a\<rceil>)"
| "mathCeil PInf = PInf"
| "mathCeil NInf = NInf"
| "mathCeil NaN = NaN"

section \<open>Data model\<close>

type_synonym Uint8ClampedArray = "nat list"

text \<open>The number read from an element of a \<^verbatim>\<open>Uint8ClampedArray\<close>.\<close>

definition byte :: "nat \<Rightarrow> number" where
  "byte v = Fin (of_nat v)"

record Resolution =
  name :: string
  dpi :: number
  description :: string

record Settings =
  brightness :: number
  contrast :: number
  sharpness :: number
  deblur :: number
  denoise :: number

text \<open>The field \<^verbatim>\<open>icon\<close> of a preset is display data and is left out.\<close>

record EnhancementPreset =
  preset_name :: string
  settings :: Settings
  preset_description :: string

definition RESOLUTIONS :: "Resolution list" where
  "RESOLUTIONS =
    [\<lparr>name = ''Standard Web'', dpi = Fin 72,
      description = ''Best for web and digital display''\<rparr>,
     \<lparr>name = ''Medium Quality'', dpi = Fin 150,
      description = ''Good for larger screens and basic prints''\<rparr>,
     \<lparr>name = ''Print Quality'', dpi = Fin 300, description = ''Ideal for standard printing''\<rparr>,
     \<lparr>name = ''High-Res Print'', dpi = Fin 600,
      description = ''Perfect for professional printing''\<rparr>]"

definition ENHANCEMENT_PRESETS :: "EnhancementPreset list" where
  "ENHANCEMENT_PRESETS =
    [\<lparr>preset_name = ''Balanced'',
      settings = \<lparr>brightness = 1, contrast = 1, sharpness = lit (11 / 10),
        deblur = lit (5 / 10), denoise = lit (3 / 10)\<rparr>,
      preset_description = ''Subtle enhancement for natural results''\<rparr>,
     \<lparr>preset_name = ''Clarity'',
      settings = \<lparr>brightness = lit (105 / 100), contrast = lit (11 / 10),
        sharpness = lit (14 / 10), deblur = lit (8 / 10), denoise = lit (4 / 10)\<rparr>,
      preset_description = ''Optimized for fixing blurry images''\<rparr>,
     \<lparr>preset_name = ''HDR'',
      settings = \<lparr>brightness = lit (115 / 100), contrast = lit (13 / 10),
        sharpness = lit (12 / 10), deblur = lit (6 / 10), denoise = lit (5 / 10)\<rparr>,
      preset_description = ''High dynamic range look''\<rparr>,
     \<lparr>preset_name = ''AI Enhance'',
      settings = \<lparr>brightness = lit (11 / 10), contrast = lit (12 / 10),
        sharpness = lit (15 / 10), deblur = 1, denoise = lit (7 / 10)\<rparr>,
      preset_description = ''Maximum detail recovery''\<rparr>]"

subsection \<open>Stores into a \<^verbatim>\<open>Uint8ClampedArray\<close>\<close>

text \<open>
  \<^verbatim>\<open>ToUint8Clamp\<close> (ECMAScript, 7.1.12): NaN gives 0; otherwise clamp the number to
  \<open>[0, 255]\<close>, then round to the nearest integer, a tie going to the even one.
\<close>

fun toUint8Clamp :: "number \<Rightarrow> nat" where
  "toUint8Clamp (Fin x) = nat (roundTiesToEven (min (max x 0) 255))"
| "toUint8Clamp PInf = 255"
| "toUint8Clamp NInf = 0"
| "toUint8Clamp NaN = 0"

text \<open>The loop \<^verbatim>\<open>for (v = lo; v < hi; v++)\<close> visits these values of \<open>v\<close>, in order.\<close>

definition for_range :: "int \<Rightarrow> int \<Rightarrow> int list" where
  "for_range lo hi = [lo .. hi - 1]"

text \<open>The loop \<^verbatim>\<open>for (v = -r; v <= r; v++)\<close> of the filter windows.\<close>

definition window_range :: "int \<Rightarrow> int list" where
  "window_range radius = [- radius .. radius]"

text \<open>\<^verbatim>\<open>clamp(v, 0, 255)\<close>, as \<^verbatim>\<open>Math.min(255, Math.max(0, v))\<close> computes it.\<close>

definition clamp255 :: "number \<Rightarrow> number" where
  "clamp255 v = mathMin (Fin 255) (mathMax 0 v)"

text \<open>
  A radius \<^verbatim>\<open>Math.ceil(strength * k)\<close> as the loops use it. With a radius of NaN or
  plus infinity the test \<^verbatim>\<open>y < height - radius\<close> fails at once and no loop body runs.
  (Minus infinity comes from a strength of minus infinity only, which the pipeline never
  passes; the loop of the source would not end.)
\<close>

fun loopRadius :: "number \<Rightarrow> int option" where
  "loopRadius (Fin r) = Some \<lfloor>r\<rfloor>"
| "loopRadius PInf = None"
| "loopRadius NInf = None"
| "loopRadius NaN = None"

subsection \<open>Tone adjustment: the brightness and contrast loop of \<^verbatim>\<open>applyImageEnhancements\<close>\<close>

text \<open>
  \<^verbatim>\<open>data[i + j] = Math.min(255, data[i + j] * settings.brightness)\<close> and
  \<^verbatim>\<open>data[i + j] = Math.min(255, ((channel / 255 - 0.5) * settings.contrast + 0.5) * 255)\<close>.
\<close>

definition brightnessByte :: "number \<Rightarrow> nat \<Rightarrow> nat" where
  "brightnessByte b v = toUint8Clamp (mathMin (Fin 255) (byte v * b))"

definition contrastByte :: "number \<Rightarrow> nat \<Rightarrow> nat" where
  "contrastByte k channel =
    toUint8Clamp (mathMin (Fin 255)
      (((byte channel / Fin 255 - Fin (1 / 2)) * k + Fin (1 / 2)) * Fin 255))"

definition brightnessLoop :: "number \<Rightarrow> nat \<Rightarrow> Uint8ClampedArray \<Rightarrow> Uint8ClampedArray" where
  "brightnessLoop b i data =
    fold (\<lambda>j data. data[i + j := brightnessByte b (data ! (i + j))]) [0 ..< 3] data"

definition contrastLoop :: "number \<Rightarrow> nat \<Rightarrow> Uint8ClampedArray \<Rightarrow> Uint8ClampedArray" where
  "contrastLoop k i data =
    fold (\<lambda>j data. data[i + j := contrastByte k (data ! (i + j))]) [0 ..< 3] data"

text \<open>
  \<^verbatim>\<open>for (let i = 0; i < data.length; i += 4)\<close>: for each pixel the brightness loop, then the
  contrast loop, both in place.
\<close>

definition toneStep :: "Settings \<Rightarrow> nat \<Rightarrow> Uint8ClampedArray \<Rightarrow> Uint8ClampedArray" where
  "toneStep s i data = contrastLoop (contrast s) i (brightnessLoop (brightness s) i data)"

definition toneLoop :: "Settings \<Rightarrow> Uint8ClampedArray \<Rightarrow> Uint8ClampedArray" where
  "toneLoop s data = fold (toneStep s) [i \<leftarrow> [0 ..< length data]. i mod 4 = 0] data"

subsection \<open>The canvas context\<close>

text \<open>
  The rendering context \<^verbatim>\<open>ctx\<close> is modelled by the bitmap of its canvas: the RGBA
  bytes of the pixels, row by row. The filters are only ever called with the width and
  the height of that canvas, so \<^verbatim>\<open>ctx.getImageData(0, 0, width, height)\<close> copies the
  whole bitmap and \<^verbatim>\<open>ctx.putImageData(imageData, 0, 0)\<close> replaces it.
  \<^verbatim>\<open>getImageData\<close> throws the DOM exception \<^verbatim>\<open>IndexSizeError\<close> when the width or the
  height it is given is zero.

  A canvas gives back the bytes it was given for every opaque pixel (alpha 255). For
  a pixel with a smaller alpha a browser may store premultiplied colours and give back
  slightly different colour bytes; the model takes the hand-over from one stage to the
  next as exact, and the theorem on the order of the stages is stated for opaque pictures.
\<close>

datatype error = IndexSizeError

definition getImageData :: "Uint8ClampedArray \<Rightarrow> int \<Rightarrow> int \<Rightarrow> error + Uint8ClampedArray" where
  "getImageData ctx sw sh = (if sw = 0 \<or> sh = 0 then Inl IndexSizeError else Inr ctx)"

text \<open>The index \<^verbatim>\<open>(y * width + x) * 4 + c\<close> of channel \<open>c\<close> of the pixel in row \<open>y\<close>, column \<open>x\<close>.\<close>

definition pixIdx :: "int \<Rightarrow> int \<Rightarrow> int \<Rightarrow> int \<Rightarrow> int" where
  "pixIdx width y x c = (y * width + x) * 4 + c"

text \<open>
  The three filters share one loop nest:
  \<^verbatim>\<open>for (y = radius; y < height - radius; y++)
    for (x = radius; x < width - radius; x++)
      for (c = 0; c < 3; c++) body\<close>
\<close>

definition forPixels ::
  "int \<Rightarrow> int \<Rightarrow> int \<Rightarrow> (int \<Rightarrow> int \<Rightarrow> int \<Rightarrow> 'a \<Rightarrow> 'a) \<Rightarrow> 'a \<Rightarrow> 'a" where
  "forPixels radius width height body data =
    fold (\<lambda>y. fold (\<lambda>x. fold (\<lambda>c. body y x c) (for_range 0 3))
      (for_range radius (width - radius))) (for_range radius (height - radius)) data"

text \<open>
  The values a window loop reads:
  \<^verbatim>\<open>for (ky = -radius; ky <= radius; ky++)
    for (kx = -radius; kx <= radius; kx++)
      tempData[((y + ky) * width + (x + kx)) * 4 + c]\<close>
\<close>

definition windowValues :: "Uint8ClampedArray \<Rightarrow> int \<Rightarrow> int \<Rightarrow> int \<Rightarrow> int \<Rightarrow> int \<Rightarrow> nat list" where
  "windowValues tempData width radius y x c =
    concat (map (\<lambda>ky. map (\<lambda>kx. tempData ! nat (pixIdx width (y + ky) (x + kx) c))
      (window_range radius)) (window_range radius))"

subsection \<open>\<^verbatim>\<open>applyDenoise\<close>\<close>

definition denoiseByte ::
  "Uint8ClampedArray \<Rightarrow> int \<Rightarrow> int \<Rightarrow> number \<Rightarrow> int \<Rightarrow> int \<Rightarrow> int \<Rightarrow> nat" where
  "denoiseByte tempData width radius strength y x c =
    (let idx = pixIdx width y x c;
         neighbors = windowValues tempData width radius y x c;
         sorted = sort neighbors;
         median = sorted ! (length sorted div 2)
     in toUint8Clamp (byte (tempData ! nat idx) * (1 - strength) + byte median * strength))"

definition denoiseBody ::
  "Uint8ClampedArray \<Rightarrow> int \<Rightarrow> int \<Rightarrow> number \<Rightarrow> int \<Rightarrow> int \<Rightarrow> int \<Rightarrow>
    Uint8ClampedArray \<Rightarrow> Uint8ClampedArray" where
  "denoiseBody tempData width radius strength y x c data =
    data[nat (pixIdx width y x c) := denoiseByte tempData width radius strength y x c]"

text \<open>The body of \<^verbatim>\<open>applyDenoise\<close> between \<^verbatim>\<open>getImageData\<close> and \<^verbatim>\<open>putImageData\<close>.\<close>

definition denoiseData :: "int \<Rightarrow> int \<Rightarrow> number \<Rightarrow> Uint8ClampedArray \<Rightarrow> Uint8ClampedArray" where
  "denoiseData width height strength data =
    (let tempData = data
     in case loopRadius (mathCeil (strength * Fin 2)) of
          None \<Rightarrow> data
        | Some radius \<Rightarrow>
            forPixels radius width height (denoiseBody tempData width radius strength) data)"

definition applyDenoise ::
  "Uint8ClampedArray \<Rightarrow> int \<Rightarrow> int \<Rightarrow> number \<Rightarrow> error + Uint8ClampedArray" where
  "applyDenoise ctx width height strength =
    (case getImageData ctx width height of
       Inl e \<Rightarrow> Inl e
     | Inr data \<Rightarrow> Inr (denoiseData width height strength data))"

subsection \<open>\<^verbatim>\<open>applyDeblur\<close>\<close>

text \<open>The local average: \<^verbatim>\<open>sum += tempData[currentIdx]; count++\<close> over the window.\<close>

definition localSum :: "nat list \<Rightarrow> number \<times> number" where
  "localSum values = fold (\<lambda>v (sum, count). (sum + byte v, count + 1)) values (0, 0)"

definition deblurDiff ::
  "Uint8ClampedArray \<Rightarrow> int \<Rightarrow> int \<Rightarrow> int \<Rightarrow> int \<Rightarrow> int \<Rightarrow> number" where
  "deblurDiff tempData width radius y x c =
    (let (sum, count) = localSum (windowValues tempData width radius y x c);
         avg = sum / count
     in byte (tempData ! nat (pixIdx width y x c)) - avg)"

definition deblurBody ::
  "Uint8ClampedArray \<Rightarrow> int \<Rightarrow> int \<Rightarrow> number \<Rightarrow> number \<Rightarrow> int \<Rightarrow> int \<Rightarrow> int \<Rightarrow>
    Uint8ClampedArray \<Rightarrow> Uint8ClampedArray" where
  "deblurBody tempData width radius amount threshold y x c data =
    (let idx = pixIdx width y x c;
         diff = deblurDiff tempData width radius y x c
     in if \<bar>diff\<bar> > threshold
        then data[nat idx :=
          toUint8Clamp (mathMin (Fin 255) (mathMax 0
            (byte (tempData ! nat idx) + diff * amount)))]
        else data)"

text \<open>The body of \<^verbatim>\<open>applyDeblur\<close> between \<^verbatim>\<open>getImageData\<close> and \<^verbatim>\<open>putImageData\<close>.\<close>

definition deblurData :: "int \<Rightarrow> int \<Rightarrow> number \<Rightarrow> Uint8ClampedArray \<Rightarrow> Uint8ClampedArray" where
  "deblurData width height strength data =
    (let tempData = data;
         amount = strength * Fin (3 / 2);
         threshold = Fin 10
     in case loopRadius (mathCeil (strength * Fin 3)) of
          None \<Rightarrow> data
        | Some radius \<Rightarrow>
            forPixels radius width height
              (deblurBody tempData width radius amount threshold) data)"

definition applyDeblur ::
  "Uint8ClampedArray \<Rightarrow> int \<Rightarrow> int \<Rightarrow> number \<Rightarrow> error + Uint8ClampedArray" where
  "applyDeblur ctx width height strength =
    (case getImageData ctx width height of
       Inl e \<Rightarrow> Inl e
     | Inr data \<Rightarrow> Inr (deblurData width height strength data))"

subsection \<open>The sharpening block of \<^verbatim>\<open>applyImageEnhancements\<close>\<close>

text \<open>The matrix \<^verbatim>\<open>kernel\<close> (the name is taken in HOL, so the variable is \<open>kern\<close> below).\<close>

definition sharpenKernel :: "number \<Rightarrow> number list list" where
  "sharpenKernel sharpenStrength =
    [[Fin (- 1), Fin (- 1), Fin (- 1)],
     [Fin (- 1), Fin 9 + sharpenStrength, Fin (- 1)],
     [Fin (- 1), Fin (- 1), Fin (- 1)]]"

definition sharpenSum ::
  "Uint8ClampedArray \<Rightarrow> int \<Rightarrow> number list list \<Rightarrow> int \<Rightarrow> int \<Rightarrow> int \<Rightarrow> number" where
  "sharpenSum tempData width kern y x c =
    fold (\<lambda>ky. fold (\<lambda>kx sum.
        sum + byte (tempData ! nat (pixIdx width (y + ky) (x + kx) c))
          * (kern ! nat (ky + 1) ! nat (kx + 1)))
      (window_range 1)) (window_range 1) 0"

definition sharpenBody ::
  "Uint8ClampedArray \<Rightarrow> int \<Rightarrow> number list list \<Rightarrow> int \<Rightarrow> int \<Rightarrow> int \<Rightarrow>
    Uint8ClampedArray \<Rightarrow> Uint8ClampedArray" where
  "sharpenBody tempData width kern y x c data =
    (let sum = sharpenSum tempData width kern y x c;
         idx = pixIdx width y x c
     in data[nat idx := toUint8Clamp (mathMin (Fin 255) (mathMax 0 sum))])"

text \<open>
  The block \<^verbatim>\<open>if (settings.sharpness > 1) { ... }\<close>. The snapshot
  \<^verbatim>\<open>new ImageData(new Uint8ClampedArray(data), width, height)\<close> is a copy of \<open>data\<close>, which
  \<^verbatim>\<open>getImageData(0, 0, width, height)\<close> returned and so is \<open>width * height * 4\<close> long.
\<close>

definition sharpen :: "int \<Rightarrow> int \<Rightarrow> Settings \<Rightarrow> Uint8ClampedArray \<Rightarrow> Uint8ClampedArray" where
  "sharpen width height s data =
    (if sharpness s > 1
     then (let sharpenStrength = (sharpness s - 1) * lit (8 / 10);
               kern = sharpenKernel sharpenStrength;
               tempData = data
           in forPixels 1 width height (sharpenBody tempData width kern) data)
     else data)"

subsection \<open>\<^verbatim>\<open>applyImageEnhancements\<close>\<close>

definition applyImageEnhancements ::
  "Uint8ClampedArray \<Rightarrow> int \<Rightarrow> int \<Rightarrow> Settings \<Rightarrow> error + Uint8ClampedArray" where
  "applyImageEnhancements ctx width height s =
    (case (if denoise s > 0 then applyDenoise ctx width height (denoise s) else Inr ctx) of
       Inl e \<Rightarrow> Inl e
     | Inr ctx1 \<Rightarrow>
        (case (if deblur s > 0 then applyDeblur ctx1 width height (deblur s)
               else Inr ctx1) of
           Inl e \<Rightarrow> Inl e
         | Inr ctx2 \<Rightarrow>
            (case getImageData ctx2 width height of
               Inl e \<Rightarrow> Inl e
             | Inr data \<Rightarrow> Inr (sharpen width height s (toneLoop s data)))))"

subsection \<open>\<^verbatim>\<open>enhanceImage\<close>\<close>

text \<open>
  A decoded picture: what the \<^verbatim>\<open>Image\<close> element holds once \<^verbatim>\<open>onload\<close> fires, and
  what the data URL written by \<^verbatim>\<open>setImage\<close> stands for. Decoding, and the JPEG encoding
  of \<^verbatim>\<open>canvas.toDataURL\<close>, belong to the browser and are not modelled.
\<close>

record Picture =
  pic_width :: nat
  pic_height :: nat
  pic_data :: Uint8ClampedArray

text \<open>
  The state of the component that \<^verbatim>\<open>enhanceImage\<close> reads and writes. The state variable
  \<^verbatim>\<open>image\<close> is \<open>currentImage\<close> here (\<open>image\<close> is the image of a set in HOL).
\<close>

record AppState =
  currentImage :: "Picture option"
  isProcessing :: bool
  selectedResolution :: Resolution
  selectedPreset :: EnhancementPreset

text \<open>
  How a call of the asynchronous function ends.
  \<^item> \<open>Fulfilled st\<close>: it ran to its end and left the state \<open>st\<close>.
  \<^item> \<open>Rejected e st\<close>: the promise it returned to its caller is rejected with \<open>e\<close>.
  \<^item> \<open>Unsettled e st\<close>: \<open>e\<close> was thrown inside the \<^verbatim>\<open>onload\<close> handler, where nothing
    catches it; \<^verbatim>\<open>resolve\<close> is never called, the awaited promise stays pending and the
    function never reaches the statements after \<^verbatim>\<open>await\<close>.
\<close>

datatype outcome =
  Fulfilled AppState
  | Rejected error AppState
  | Unsettled error AppState

text \<open>
  An assignment to \<^verbatim>\<open>canvas.width\<close> or \<^verbatim>\<open>canvas.height\<close> converts the number to the
  Web IDL type \<^verbatim>\<open>unsigned long\<close>: NaN and the infinities give 0, otherwise the fraction
  is cut off and the result is taken modulo \<open>2 ^ 32\<close>. The attribute then keeps a value up
  to 2147483647 and falls back to its default (300 for the width, 150 for the height) for a
  larger one. The limits a browser puts on the size of a canvas are not modelled.
\<close>

definition integerPart :: "rat \<Rightarrow> int" where
  "integerPart x = (if x < 0 then \<lceil>x\<rceil> else \<lfloor>x\<rfloor>)"

fun toUnsignedLong :: "number \<Rightarrow> int" where
  "toUnsignedLong (Fin x) = integerPart x mod 2 ^ 32"
| "toUnsignedLong PInf = 0"
| "toUnsignedLong NInf = 0"
| "toUnsignedLong NaN = 0"

definition canvasDimension :: "int \<Rightarrow> number \<Rightarrow> int" where
  "canvasDimension fallback x =
    (let n = toUnsignedLong x in if n \<le> 2147483647 then n else fallback)"

text \<open>
  \<open>drawImage\<close> stands for the browser's smoothed scaling
  \<^verbatim>\<open>ctx.drawImage(img, 0, 0, canvas.width, canvas.height)\<close> onto the fresh canvas: it
  gives the bitmap of the canvas after the call. \<open>hasContext\<close> tells whether
  \<^verbatim>\<open>canvas.getContext('2d')\<close> returned a context; without one the handler only calls
  \<^verbatim>\<open>resolve(null)\<close>. The width and the height of the picture are integers below \<open>2 ^ 53\<close>
  and so are doubles.
\<close>

definition enhanceImage ::
  "bool \<Rightarrow> (Picture \<Rightarrow> int \<Rightarrow> int \<Rightarrow> Uint8ClampedArray) \<Rightarrow> AppState \<Rightarrow> outcome" where
  "enhanceImage hasContext drawImage st =
    (case currentImage st of
       None \<Rightarrow> Fulfilled st
     | Some img \<Rightarrow>
        (let st1 = st\<lparr>isProcessing := True\<rparr>;
             scaleFactor = dpi (selectedResolution st) / Fin 72;
             canvas_width = canvasDimension 300 (Fin (of_nat (pic_width img)) * scaleFactor);
             canvas_height = canvasDimension 150 (Fin (of_nat (pic_height img)) * scaleFactor)
         in if hasContext
            then (let ctx = drawImage img canvas_width canvas_height
                  in case applyImageEnhancements ctx canvas_width canvas_height
                       (settings (selectedPreset st)) of
                       Inl e \<Rightarrow> Unsettled e st1
                     | Inr enhanced \<Rightarrow>
                         Fulfilled (st1\<lparr>currentImage :=
                           Some \<lparr>pic_width = nat canvas_width, pic_height = nat canvas_height,
                             pic_data = enhanced\<rparr>,
                           isProcessing := False\<rparr>))
            else Fulfilled (st1\<lparr>isProcessing := False\<rparr>)))"

section \<open>Auxiliary definitions\<close>

text \<open>The byte the tone loop leaves in a colour channel that held \<open>v\<close>.\<close>

definition toneByte :: "Settings \<Rightarrow> nat \<Rightarrow> nat" where
  "toneByte s v = contrastByte (contrast s) (brightnessByte (brightness s) v)"

text \<open>
  The two formulas of the specification chained as they are written, the second applied to
  the number the first gives, with no store between them.
\<close>

definition toneUnrounded :: "Settings \<Rightarrow> nat \<Rightarrow> number" where
  "toneUnrounded s v =
    clamp255 (((clamp255 (byte v * brightness s) / Fin 255 - Fin (1 / 2)) * contrast s
      + Fin (1 / 2)) * Fin 255)"

text \<open>
  A guarded store \<^verbatim>\<open>if (p) data[f] = g\<close> whose index and value do not depend on \<open>data\<close>:
  the filters compute both from the snapshot \<^verbatim>\<open>tempData\<close>.
\<close>

definition store :: "('t \<Rightarrow> bool) \<Rightarrow> ('t \<Rightarrow> nat) \<Rightarrow> ('t \<Rightarrow> 'v) \<Rightarrow> 't \<Rightarrow> 'v list \<Rightarrow> 'v list" where
  "store p f g t d = (if p t then d[f t := g t] else d)"

text \<open>The pixels and channels the loop nest visits, in order.\<close>

definition visited :: "int \<Rightarrow> int \<Rightarrow> int \<Rightarrow> (int \<times> int \<times> int) list" where
  "visited radius width height =
    concat (map (\<lambda>y. concat (map (\<lambda>x. map (\<lambda>c. (y, x, c)) (for_range 0 3))
      (for_range radius (width - radius)))) (for_range radius (height - radius)))"

text \<open>The array index of a visited channel.\<close>

definition byteAt :: "int \<Rightarrow> int \<times> int \<times> int \<Rightarrow> nat" where
  "byteAt w = (\<lambda>(y, x, c). nat (pixIdx w y x c))"

text \<open>One filter pass: a guarded store at each visited channel.\<close>

definition pass ::
  "(int \<times> int \<times> int \<Rightarrow> bool) \<Rightarrow> (int \<times> int \<times> int \<Rightarrow> nat) \<Rightarrow> int \<Rightarrow> int \<Rightarrow> int \<Rightarrow>
    nat list \<Rightarrow> nat list" where
  "pass p g radius w h d = fold (store p (byteAt w) g) (visited radius w h) d"

text \<open>The byte \<^verbatim>\<open>applyDeblur\<close> stores where the difference exceeds the threshold.\<close>

definition deblurByte ::
  "Uint8ClampedArray \<Rightarrow> int \<Rightarrow> int \<Rightarrow> number \<Rightarrow> int \<Rightarrow> int \<Rightarrow> int \<Rightarrow> nat" where
  "deblurByte T w radius amount y x c =
    toUint8Clamp (mathMin (Fin 255) (mathMax 0
      (byte (T ! nat (pixIdx w y x c)) + deblurDiff T w radius y x c * amount)))"

text \<open>
  What a stage may do to a buffer: the length stays, and a byte that changes is a colour
  byte (its index is not 3 modulo 4) and is at most 255. So every alpha byte stays as it was.
\<close>

definition keepsFrame :: "Uint8ClampedArray \<Rightarrow> Uint8ClampedArray \<Rightarrow> bool" where
  "keepsFrame data out \<longleftrightarrow>
    length out = length data \<and>
    (\<forall>k < length data. out ! k = data ! k \<or> (k mod 4 \<noteq> 3 \<and> out ! k \<le> 255))"

text \<open>The stages of \<^verbatim>\<open>applyImageEnhancements\<close> as one function on the bitmap.\<close>

definition pipeline :: "int \<Rightarrow> int \<Rightarrow> Settings \<Rightarrow> Uint8ClampedArray \<Rightarrow> Uint8ClampedArray" where
  "pipeline w h s =
    sharpen w h s \<circ> toneLoop s \<circ>
    (if deblur s > 0 then deblurData w h (deblur s) else id) \<circ>
    (if denoise s > 0 then denoiseData w h (denoise s) else id)"

text \<open>A bitmap whose pixels are all opaque: every alpha byte is 255.\<close>

definition opaque :: "Uint8ClampedArray \<Rightarrow> bool" where
  "opaque data = list_all (\<lambda>k. data ! k = 255) [k \<leftarrow> [0 ..< length data]. k mod 4 = 3]"

text \<open>
  The window of a pixel in the words of the specification: the values of channel \<open>c\<close> in
  the \<open>(2r+1) \<times> (2r+1)\<close> block of pixels centred at row \<open>y\<close>, column \<open>x\<close>, row by row.
\<close>

definition windowBlock :: "Uint8ClampedArray \<Rightarrow> int \<Rightarrow> int \<Rightarrow> int \<Rightarrow> int \<Rightarrow> int \<Rightarrow> nat list" where
  "windowBlock data width r y x c =
    concat (map (\<lambda>y'. map (\<lambda>x'. data ! nat (pixIdx width y' x' c)) [x - r .. x + r])
      [y - r .. y + r])"

text \<open>
  The median as \<^verbatim>\<open>applyDenoise\<close> takes it: \<^verbatim>\<open>neighbors[Math.floor(neighbors.length / 2)]\<close>
  after \<^verbatim>\<open>neighbors.sort((a, b) => a - b)\<close>.
\<close>

definition medianOf :: "nat list \<Rightarrow> nat" where
  "medianOf ws = sort ws ! (length ws div 2)"

text \<open>
  The mean over the \<open>(2r+1)\<^sup>2\<close> values of the window: their sum, an integer, divided by their
  number, in one division of doubles.
\<close>

definition localMean :: "Uint8ClampedArray \<Rightarrow> int \<Rightarrow> int \<Rightarrow> int \<Rightarrow> int \<Rightarrow> int \<Rightarrow> number" where
  "localMean data width r y x c =
    Fin (of_nat (sum_list (windowBlock data width r y x c))) / Fin (of_int ((2 * r + 1)\<^sup>2))"

text \<open>
  The 3 by 3 convolution in the words of the specification: the eight neighbours at
  weight \<open>-1\<close>, the centre at weight \<open>9 + boost\<close>; the nine products are added row by row,
  from the top left, each addition and multiplication being one of doubles.
\<close>

definition convolution3x3 ::
  "Uint8ClampedArray \<Rightarrow> int \<Rightarrow> number \<Rightarrow> int \<Rightarrow> int \<Rightarrow> int \<Rightarrow> number" where
  "convolution3x3 data width boost y x c =
    (let p = (\<lambda>ky kx. byte (data ! nat (pixIdx width (y + ky) (x + kx) c)))
     in 0 + p (- 1) (- 1) * Fin (- 1) + p (- 1) 0 * Fin (- 1) + p (- 1) 1 * Fin (- 1)
        + p 0 (- 1) * Fin (- 1) + p 0 0 * (Fin 9 + boost) + p 0 1 * Fin (- 1)
        + p 1 (- 1) * Fin (- 1) + p 1 0 * Fin (- 1) + p 1 1 * Fin (- 1))"

text \<open>The state a call leaves behind, and the error thrown during it, if any.\<close>

fun finalState :: "outcome \<Rightarrow> AppState" where
  "finalState (Fulfilled st) = st"
| "finalState (Rejected e st) = st"
| "finalState (Unsettled e st) = st"

fun raised :: "outcome \<Rightarrow> error option" where
  "raised (Fulfilled st) = None"
| "raised (Rejected e st) = Some e"
| "raised (Unsettled e st) = Some e"

text \<open>
  The width and the height of the picture in the state a call leaves when it ends
  normally.
\<close>

fun outputSize :: "outcome \<Rightarrow> (nat \<times> nat) option" where
  "outputSize (Fulfilled st) = map_option (\<lambda>p. (pic_width p, pic_height p)) (currentImage st)"
| "outputSize (Rejected e st) = None"
| "outputSize (Unsettled e st) = None"

text \<open>\<^verbatim>\<open>Math.round\<close>, which the specification applies to the scaled dimensions.\<close>

fun mathRound :: "number \<Rightarrow> number" where
  "mathRound (Fin x) = Fin (of_int \<lfloor>x + 1 / 2\<rfloor>)"
| "mathRound PInf = PInf"
| "mathRound NInf = NInf"
| "mathRound NaN = NaN"

text \<open>The error the caller of \<^verbatim>\<open>enhanceImage\<close> receives, when it receives one.\<close>

fun surfaced :: "outcome \<Rightarrow> error option" where
  "surfaced (Fulfilled st) = None"
| "surfaced (Rejected e st) = Some e"
| "surfaced (Unsettled e st) = None"

text \<open>
  Concrete inputs: the settings of the four presets, settings outside the catalogue,
  pictures, a \<open>drawImage\<close> for a canvas of the size of the picture and one that fills the
  canvas with transparent black, and states of the component.
\<close>

definition balanced :: Settings where
  "balanced = settings (ENHANCEMENT_PRESETS ! 0)"

definition hdr :: Settings where
  "hdr = settings (ENHANCEMENT_PRESETS ! 2)"

definition aiEnhance :: Settings where
  "aiEnhance = settings (ENHANCEMENT_PRESETS ! 3)"

definition brighter :: Settings where
  "brighter = \<lparr>brightness = lit (12 / 10), contrast = 1, sharpness = 1, deblur = 0, denoise = 0\<rparr>"

definition img3 :: Uint8ClampedArray where
  "img3 =
    [10, 20, 30, 255,   40, 50, 60, 255,   70, 80, 90, 255,
     15, 25, 35, 255,   200, 100, 0, 255,  75, 85, 95, 255,
     12, 22, 32, 255,   42, 52, 62, 255,   72, 82, 92, 255]"

text \<open>A 3 by 3 picture for the denoise filter and a 5 by 5 picture for the deblur filter.\<close>

definition imgD :: Uint8ClampedArray where
  "imgD =
    [10, 144, 100, 255,   18, 150, 50, 255,    30, 100, 100, 255,
     18, 200, 120, 255,   3, 9, 200, 255,      40, 144, 100, 255,
     12, 160, 80, 255,    18, 90, 130, 255,    25, 144, 100, 255]"

definition img5 :: Uint8ClampedArray where
  "img5 =
    [97, 100, 10, 255,  86, 100, 10, 255,  86, 100, 10, 255,  86, 100, 10, 255,  86, 100, 10, 255,
     86, 100, 10, 255,  86, 100, 10, 255,  86, 100, 10, 255,  86, 100, 10, 255,  86, 100, 10, 255,
     86, 100, 10, 255,  86, 100, 10, 255,  50, 105, 250, 255, 86, 100, 10, 255,  86, 100, 10, 255,
     86, 100, 10, 255,  86, 100, 10, 255,  86, 100, 10, 255,  86, 100, 10, 255,  86, 100, 10, 255,
     86, 100, 10, 255,  86, 100, 10, 255,  86, 100, 10, 255,  86, 100, 10, 255,  86, 100, 10, 255]"

definition sameSize :: "Picture \<Rightarrow> int \<Rightarrow> int \<Rightarrow> Uint8ClampedArray" where
  "sameSize img w h = pic_data img"

definition blank :: "Picture \<Rightarrow> int \<Rightarrow> int \<Rightarrow> Uint8ClampedArray" where
  "blank img w h = replicate (nat (w * h * 4)) 0"

definition state3 :: AppState where
  "state3 =
    \<lparr>currentImage = Some \<lparr>pic_width = 3, pic_height = 3, pic_data = img3\<rparr>,
     isProcessing = False,
     selectedResolution = RESOLUTIONS ! 0,
     selectedPreset = ENHANCEMENT_PRESETS ! 0\<rparr>"

definition state7 :: AppState where
  "state7 =
    \<lparr>currentImage = Some \<lparr>pic_width = 7, pic_height = 7, pic_data = replicate 196 0\<rparr>,
     isProcessing = False,
     selectedResolution = RESOLUTIONS ! 1,
     selectedPreset = ENHANCEMENT_PRESETS ! 0\<rparr>"

definition state0 :: AppState where
  "state0 =
    \<lparr>currentImage = Some \<lparr>pic_width = 0, pic_height = 5, pic_data = []\<rparr>,
     isProcessing = False,
     selectedResolution = RESOLUTIONS ! 0,
     selectedPreset = ENHANCEMENT_PRESETS ! 0\<rparr>"

definition state0h :: AppState where
  "state0h =
    \<lparr>currentImage = Some \<lparr>pic_width = 4, pic_height = 0, pic_data = []\<rparr>,
     isProcessing = False,
     selectedResolution = RESOLUTIONS ! 2,
     selectedPreset = ENHANCEMENT_PRESETS ! 3\<rparr>"

section \<open>Properties of the building blocks\<close>

subsection \<open>Rounding\<close>

lemma pow2_powi: "pow2 t = 2 powi t"
  by (simp add: pow2_def power_int_def inverse_eq_divide power_one_over [symmetric] del: power_one_over)

lemma pow2_pos [simp]: "0 < pow2 t"
  by (simp add: pow2_powi)

lemma pow2_nonneg [simp]: "0 \<le> pow2 t"
  by (simp add: pow2_powi)

lemma pow2_add: "pow2 (a + b) = pow2 a * pow2 b"
  by (simp add: pow2_powi power_int_add)

lemma pow2_nat: "pow2 (int k) = 2 ^ k"
  by (simp add: pow2_def)

lemma pow2_neg_nat: "pow2 (- int k) = 1 / 2 ^ k"
  by (simp add: pow2_powi power_int_minus inverse_eq_divide)

lemma pow2_mono: "a \<le> b \<Longrightarrow> pow2 a \<le> pow2 b"
  by (simp add: pow2_powi power_int_increasing)

lemma floor_rat_numeral [simp]: "\<lfloor>numeral a / numeral b :: rat\<rfloor> = numeral a div numeral b"
  using floor_divide_of_int_eq [of "numeral a" "numeral b", where ?'a = rat] by simp

lemma floor_rat_neg_numeral [simp]:
  "\<lfloor>- (numeral a / numeral b) :: rat\<rfloor> = - numeral a div numeral b"
  using floor_divide_of_int_eq [of "- numeral a" "numeral b", where ?'a = rat] by simp

lemma ceiling_rat_numeral [simp]:
  "\<lceil>numeral a / numeral b :: rat\<rceil> = - (- numeral a div numeral b)"
  by (simp add: ceiling_def)

lemma scaleUp_spec:
  "0 < x \<Longrightarrow> scaleUp x t = (y, u) \<Longrightarrow>
    y * pow2 u = x * pow2 t \<and> 0 < y \<and> y < 9007199254740992 \<and>
    (x < 9007199254740992 \<longrightarrow> y = x \<and> u = t) \<and>
    (9007199254740992 \<le> x \<longrightarrow> 4503599627370496 \<le> y)"
proof (induction x t arbitrary: y u rule: scaleUp.induct)
  case (1 x t)
  consider (big) "9007199254740992 * 4294967296 \<le> x"
    | (mid) "\<not> 9007199254740992 * 4294967296 \<le> x" "9007199254740992 \<le> x"
    | (small) "x < 9007199254740992"
    by linarith
  then show ?case
  proof cases
    case big
    have "scaleUp x t = scaleUp (x / 4294967296) (t + 32)"
      by (subst scaleUp.simps) (simp only: big if_True if_False simp_thms)
    then have eq: "scaleUp (x / 4294967296) (t + 32) = (y, u)"
      using "1.prems"(2) by simp
    have pos: "0 < x / 4294967296" using "1.prems"(1) by simp
    have ge: "9007199254740992 \<le> x / 4294967296" using big by simp
    have p: "pow2 (t + 32) = pow2 t * 4294967296"
      by (simp add: pow2_add) (simp add: pow2_def)
    have ih: "y * pow2 u = x / 4294967296 * pow2 (t + 32) \<and> 0 < y \<and> y < 9007199254740992 \<and>
      (x / 4294967296 < 9007199254740992 \<longrightarrow> y = x / 4294967296 \<and> u = t + 32) \<and>
      (9007199254740992 \<le> x / 4294967296 \<longrightarrow> 4503599627370496 \<le> y)"
      by (rule "1.IH"(1) [OF big pos eq])
    have v: "x / 4294967296 * pow2 (t + 32) = x * pow2 t" unfolding p by simp
    have nb: "\<not> x < 9007199254740992" using big by linarith
    have b2: "9007199254740992 \<le> x" using big by linarith
    show ?thesis using ih ge v nb b2 by metis
  next
    case mid
    have "scaleUp x t = scaleUp (x / 2) (t + 1)"
      by (subst scaleUp.simps) (simp only: mid if_True if_False simp_thms)
    then have eq: "scaleUp (x / 2) (t + 1) = (y, u)"
      using "1.prems"(2) by simp
    have pos: "0 < x / 2" using "1.prems"(1) by simp
    have p: "pow2 (t + 1) = pow2 t * 2"
      by (simp add: pow2_add) (simp add: pow2_def)
    have ih: "y * pow2 u = x / 2 * pow2 (t + 1) \<and> 0 < y \<and> y < 9007199254740992 \<and>
      (x / 2 < 9007199254740992 \<longrightarrow> y = x / 2 \<and> u = t + 1) \<and>
      (9007199254740992 \<le> x / 2 \<longrightarrow> 4503599627370496 \<le> y)"
      by (rule "1.IH"(2) [OF mid(1) mid(2) pos eq])
    have "4503599627370496 \<le> y"
    proof (cases "x / 2 < 9007199254740992")
      case True
      then have "y = x / 2" using ih by simp
      then show ?thesis using mid(2) by simp
    next
      case False
      then show ?thesis using ih by simp
    qed
    moreover have v: "x / 2 * pow2 (t + 1) = x * pow2 t" unfolding p by simp
    moreover have nb: "\<not> x < 9007199254740992" using mid(2) by linarith
    ultimately show ?thesis using ih by metis
  next
    case small
    then have "scaleUp x t = (x, t)" by (subst scaleUp.simps) simp
    then show ?thesis using "1.prems" small by simp
  qed
qed

lemma scaleDown_spec:
  "0 < x \<Longrightarrow> - 1074 \<le> t \<Longrightarrow> scaleDown x t = (y, u) \<Longrightarrow>
    (\<exists>k::nat. y = x * 2 ^ k \<and> u = t - int k) \<and> - 1074 \<le> u \<and>
    (x < 9007199254740992 \<longrightarrow> y < 9007199254740992) \<and>
    (4503599627370496 \<le> y \<or> u = - 1074)"
proof (induction x t arbitrary: y u rule: scaleDown.induct)
  case (1 x t)
  let ?A = "x < 1048576 \<and> - 1042 \<le> t"
  let ?B = "x < 17592186044416 \<and> - 1066 \<le> t"
  let ?C = "x < 4503599627370496 \<and> - 1074 < t"
  consider (a) ?A | (b) "\<not> ?A" ?B | (c) "\<not> ?A" "\<not> ?B" ?C | (d) "\<not> ?A" "\<not> ?B" "\<not> ?C"
    by blast
  then show ?case
  proof cases
    case a
    have "scaleDown x t = scaleDown (4294967296 * x) (t - 32)"
      by (subst scaleDown.simps) (simp only: a if_True if_False simp_thms)
    then have eq: "scaleDown (4294967296 * x) (t - 32) = (y, u)"
      using "1.prems"(3) by simp
    have pos: "0 < 4294967296 * x" using "1.prems"(1) by simp
    have t: "- 1074 \<le> t - 32" using a by simp
    from "1.IH"(1) [OF a pos t eq]
    obtain k :: nat where k: "y = 4294967296 * x * 2 ^ k" "u = t - 32 - int k"
      and rest: "- 1074 \<le> u" "4294967296 * x < 9007199254740992 \<longrightarrow> y < 9007199254740992"
        "4503599627370496 \<le> y \<or> u = - 1074"
      by (elim conjE exE)
    have "y = x * 2 ^ (k + 32) \<and> u = t - int (k + 32)"
      using k by (simp add: power_add)
    then have ex: "\<exists>k::nat. y = x * 2 ^ k \<and> u = t - int k" by (rule exI)
    have "4294967296 * x < 9007199254740992" using a by simp
    then have y53: "y < 9007199254740992" using rest(2) by (rule rev_mp)
    show ?thesis by (intro conjI impI) (rule ex rest(1) y53 rest(3))+
  next
    case b
    have "scaleDown x t = scaleDown (256 * x) (t - 8)"
      by (subst scaleDown.simps) (simp only: b if_True if_False simp_thms)
    then have eq: "scaleDown (256 * x) (t - 8) = (y, u)"
      using "1.prems"(3) by simp
    have pos: "0 < 256 * x" using "1.prems"(1) by simp
    have t: "- 1074 \<le> t - 8" using b by simp
    from "1.IH"(2) [OF b pos t eq]
    obtain k :: nat where k: "y = 256 * x * 2 ^ k" "u = t - 8 - int k"
      and rest: "- 1074 \<le> u" "256 * x < 9007199254740992 \<longrightarrow> y < 9007199254740992"
        "4503599627370496 \<le> y \<or> u = - 1074"
      by (elim conjE exE)
    have "y = x * 2 ^ (k + 8) \<and> u = t - int (k + 8)"
      using k by (simp add: power_add)
    then have ex: "\<exists>k::nat. y = x * 2 ^ k \<and> u = t - int k" by (rule exI)
    have "256 * x < 9007199254740992" using b by simp
    then have y53: "y < 9007199254740992" using rest(2) by (rule rev_mp)
    show ?thesis by (intro conjI impI) (rule ex rest(1) y53 rest(3))+
  next
    case c
    have "scaleDown x t = scaleDown (2 * x) (t - 1)"
      by (subst scaleDown.simps) (simp only: c if_True if_False simp_thms)
    then have eq: "scaleDown (2 * x) (t - 1) = (y, u)"
      using "1.prems"(3) by simp
    have pos: "0 < 2 * x" using "1.prems"(1) by simp
    have t: "- 1074 \<le> t - 1" using c by simp
    from "1.IH"(3) [OF c pos t eq]
    obtain k :: nat where k: "y = 2 * x * 2 ^ k" "u = t - 1 - int k"
      and rest: "- 1074 \<le> u" "2 * x < 9007199254740992 \<longrightarrow> y < 9007199254740992"
        "4503599627370496 \<le> y \<or> u = - 1074"
      by (elim conjE exE)
    have "y = x * 2 ^ (k + 1) \<and> u = t - int (k + 1)"
      using k by simp
    then have ex: "\<exists>k::nat. y = x * 2 ^ k \<and> u = t - int k" by (rule exI)
    have "2 * x < 9007199254740992" using c by simp
    then have y53: "y < 9007199254740992" using rest(2) by (rule rev_mp)
    show ?thesis by (intro conjI impI) (rule ex rest(1) y53 rest(3))+
  next
    case d
    have "scaleDown x t = (x, t)" by (subst scaleDown.simps) (simp only: d if_True if_False simp_thms)
    then have yu: "y = x" "u = t" using "1.prems"(3) by simp_all
    have "y = x * 2 ^ 0 \<and> u = t - int 0" using yu by simp
    then have ex: "\<exists>k::nat. y = x * 2 ^ k \<and> u = t - int k" by (rule exI)
    have "4503599627370496 \<le> x \<or> t = - 1074"
      using d "1.prems"(2) by linarith
    then have r3: "4503599627370496 \<le> y \<or> u = - 1074" unfolding yu .
    have r1: "- 1074 \<le> u" unfolding yu by (rule "1.prems"(2))
    have r2: "x < 9007199254740992 \<longrightarrow> y < 9007199254740992" unfolding yu(1) by simp
    show ?thesis by (intro conjI) (rule ex r1 r2 r3)+
  qed
qed

lemma normalise_spec:
  assumes "0 < x" and "normalise x = (y, u)"
  shows "y * pow2 u = x \<and> 0 < y \<and> y < 9007199254740992 \<and> - 1074 \<le> u \<and>
    (4503599627370496 \<le> y \<or> u = - 1074) \<and>
    (x < 9007199254740992 \<longrightarrow> (\<exists>k::nat. y = x * 2 ^ k \<and> u = - int k))"
proof -
  obtain y1 u1 where up: "scaleUp x 0 = (y1, u1)" by (cases "scaleUp x 0")
  have down: "scaleDown y1 u1 = (y, u)" using assms(2) up by (simp add: normalise_def)
  have s1: "y1 * pow2 u1 = x" "0 < y1" "y1 < 9007199254740992"
    "x < 9007199254740992 \<longrightarrow> y1 = x \<and> u1 = 0"
    "9007199254740992 \<le> x \<longrightarrow> 4503599627370496 \<le> y1"
    using scaleUp_spec [OF assms(1) up] by (simp_all add: pow2_def)
  have u1: "0 \<le> u1"
  proof (cases "x < 9007199254740992")
    case True
    then show ?thesis using s1(4) by simp
  next
    case False
    show ?thesis
    proof (rule ccontr)
      assume "\<not> 0 \<le> u1"
      then have "pow2 u1 \<le> pow2 (- 1)" by (intro pow2_mono) simp
      then have "pow2 u1 < 1" by (simp add: pow2_def)
      then have "y1 * pow2 u1 < y1 * 1" using s1(2) by (simp only: mult_strict_left_mono)
      then show False using s1(1,3) False by simp
    qed
  qed
  then have t: "- 1074 \<le> u1" by simp
  from scaleDown_spec [OF s1(2) t down]
  obtain k :: nat where k: "y = y1 * 2 ^ k" "u = u1 - int k"
    and rest0: "- 1074 \<le> u" "y1 < 9007199254740992 \<longrightarrow> y < 9007199254740992"
      "4503599627370496 \<le> y \<or> u = - 1074"
    by (elim conjE exE)
  have y53: "y < 9007199254740992" using s1(3) rest0(2) by (rule rev_mp)
  have "pow2 u1 = pow2 u * pow2 (int k)"
    using k(2) pow2_add [of u "int k"] by simp
  then have val: "y * pow2 u = x"
    using k(1) s1(1) by (simp add: pow2_nat mult_ac)
  have pos: "0 < y" using k(1) s1(2) by simp
  have small: "x < 9007199254740992 \<longrightarrow> (\<exists>k::nat. y = x * 2 ^ k \<and> u = - int k)"
  proof
    assume "x < 9007199254740992"
    then have "y1 = x" "u1 = 0" using s1(4) by simp_all
    then have "y = x * 2 ^ k \<and> u = - int k" using k by simp
    then show "\<exists>k::nat. y = x * 2 ^ k \<and> u = - int k" by (rule exI)
  qed
  show ?thesis by (intro conjI) (rule val pos y53 rest0(1) rest0(3) small)+
qed


lemma roundTiesToEven_bounds:
  "x - 1 / 2 \<le> of_int (roundTiesToEven x) \<and> of_int (roundTiesToEven x) \<le> x + 1 / 2"
proof -
  have "of_int \<lfloor>x\<rfloor> \<le> x" "x < of_int \<lfloor>x\<rfloor> + 1" by linarith+
  then show ?thesis unfolding roundTiesToEven_def tieBreak_def
    by (simp split: if_splits; linarith)
qed

lemma roundTiesToEven_of_int [simp]: "roundTiesToEven (of_int n) = n"
  by (simp add: roundTiesToEven_def tieBreak_def)

lemma roundTiesToEven_ge: "of_int n \<le> x \<Longrightarrow> n \<le> roundTiesToEven x"
proof -
  assume "of_int n \<le> x"
  then have "n \<le> \<lfloor>x\<rfloor>" by (simp add: le_floor_iff)
  then show ?thesis by (simp add: roundTiesToEven_def tieBreak_def)
qed

lemma roundTiesToEven_le: "x \<le> of_int n \<Longrightarrow> roundTiesToEven x \<le> n"
proof (cases "x = of_int n")
  case True
  then show ?thesis by simp
next
  case False
  assume "x \<le> of_int n"
  then have "x < of_int n" using False by simp
  then have "\<lfloor>x\<rfloor> < n" by (simp add: floor_less_iff)
  then show ?thesis by (simp add: roundTiesToEven_def tieBreak_def)
qed

lemma pack_negative: "pack True m t = fneg (pack False m t)"
  by (simp add: pack_def)

lemma fl_round_pos: "0 < x \<Longrightarrow> normalise x = (y, u) \<Longrightarrow> fl_round x = pack False (roundTiesToEven y) u"
  by (simp add: fl_round_def)

lemma fl_round_minus: "fl_round (- x) = fneg (fl_round x)"
proof -
  obtain y u where n: "normalise \<bar>x\<bar> = (y, u)" by (cases "normalise \<bar>x\<bar>")
  show ?thesis
  proof (cases "x = 0")
    case True
    then show ?thesis by (simp add: fl_round_def)
  next
    case False
    then show ?thesis
      using n by (cases "0 < x") (auto simp add: fl_round_def pack_negative not_less pack_def)
  qed
qed

lemma fl_round_0 [simp]: "fl_round 0 = Fin 0"
  by (simp add: fl_round_def)

text \<open>The error of one rounding, away from overflow.\<close>

lemma fl_round_error_pos:
  assumes "0 < x" and "x < pow2 1023"
  shows "\<exists>y. fl_round x = Fin y \<and> \<bar>y - x\<bar> \<le> x / 9007199254740992 + pow2 (- 1075)"
proof -
  obtain y u where n: "normalise x = (y, u)" by (cases "normalise x")
  note sp = normalise_spec [OF assms(1) n]
  define m where "m = roundTiesToEven y"
  have val: "y * pow2 u = x" and ypos: "0 < y" and y53: "y < 9007199254740992"
    and u: "- 1074 \<le> u" and norm: "4503599627370496 \<le> y \<or> u = - 1074"
    using sp by simp_all
  have u971: "u < 971"
  proof (rule ccontr)
    assume "\<not> u < 971"
    then have "971 \<le> u" by simp
    then have p: "pow2 971 \<le> pow2 u" by (rule pow2_mono)
    have y52: "4503599627370496 \<le> y" using norm \<open>971 \<le> u\<close> by auto
    have "pow2 52 * pow2 971 \<le> y * pow2 u"
      using y52 p by (intro mult_mono) (simp_all add: pow2_def)
    moreover have "pow2 52 * pow2 971 = pow2 1023" using pow2_add [of 52 971] by simp
    ultimately show False using val assms(2) by simp
  qed
  have fl: "fl_round x = Fin (of_int m * pow2 u)"
    using fl_round_pos [OF assms(1) n] u971 by (simp add: pack_def m_def)
  have err: "\<bar>of_int m - y\<bar> \<le> 1 / 2"
    using roundTiesToEven_bounds [of y] unfolding m_def by linarith
  have "\<bar>of_int m * pow2 u - x\<bar> = \<bar>of_int m - y\<bar> * pow2 u"
    unfolding val [symmetric] by (simp add: left_diff_distrib [symmetric] abs_mult)
  also have "\<dots> \<le> 1 / 2 * pow2 u"
    using err by (intro mult_right_mono) simp_all
  also have "\<dots> \<le> x / 9007199254740992 + pow2 (- 1075)"
  proof (cases "4503599627370496 \<le> y")
    case True
    then have "4503599627370496 * pow2 u \<le> y * pow2 u"
      by (intro mult_right_mono) simp_all
    then have "1 / 2 * pow2 u \<le> x / 9007199254740992" unfolding val by simp
    moreover have "0 \<le> pow2 (- 1075)" by simp
    ultimately show ?thesis by linarith
  next
    case False
    then have "u = - 1074" using norm by simp
    then have "pow2 (- 1075) * 2 = pow2 u" using pow2_add [of "- 1075" 1] by (simp add: pow2_def)
    then have "1 / 2 * pow2 u = pow2 (- 1075)" by simp
    then show ?thesis using assms(1) by simp
  qed
  finally show ?thesis using fl by blast
qed

lemma fl_round_error:
  assumes "\<bar>x\<bar> < pow2 1023"
  shows "\<exists>y. fl_round x = Fin y \<and> \<bar>y - x\<bar> \<le> \<bar>x\<bar> / 9007199254740992 + pow2 (- 1075)"
proof -
  consider "x = 0" | "0 < x" | "x < 0" by linarith
  then show ?thesis
  proof cases
    case 1
    then show ?thesis by simp
  next
    case 2
    then show ?thesis using fl_round_error_pos [of x] assms by simp
  next
    case 3
    then have "0 < - x" "- x < pow2 1023" using assms by simp_all
    from fl_round_error_pos [OF this]
    obtain y where y: "fl_round (- x) = Fin y" "\<bar>y - (- x)\<bar> \<le> - x / 9007199254740992 + pow2 (- 1075)"
      by blast
    have "fl_round x = fneg (fl_round (- x))" using fl_round_minus [of "- x"] by simp
    then have "fl_round x = Fin (- y)" using y(1) by simp
    moreover have "\<bar>- y - x\<bar> = \<bar>y - (- x)\<bar>" by simp
    ultimately show ?thesis using y(2) 3 by (intro exI [of _ "- y"]) simp
  qed
qed

lemma fl_round_near:
  assumes "\<bar>x\<bar> \<le> 1048576"
  shows "\<exists>y. fl_round x = Fin y \<and> \<bar>y - x\<bar> \<le> 1 / 4294967296"
proof -
  have "\<bar>x\<bar> < pow2 21" using assms by (simp add: pow2_def)
  moreover have "pow2 21 \<le> pow2 1023" by (rule pow2_mono) simp
  ultimately have "\<bar>x\<bar> < pow2 1023" by linarith
  from fl_round_error [OF this]
  obtain y where y: "fl_round x = Fin y" "\<bar>y - x\<bar> \<le> \<bar>x\<bar> / 9007199254740992 + pow2 (- 1075)"
    by blast
  have "pow2 (- 1075) \<le> pow2 (- 33)" by (rule pow2_mono) simp
  then have "pow2 (- 1075) \<le> 1 / 8589934592" by (simp add: pow2_def)
  moreover have "\<bar>x\<bar> / 9007199254740992 \<le> 1 / 8589934592" using assms by simp
  ultimately have "\<bar>y - x\<bar> \<le> 1 / 4294967296" using y(2) by linarith
  then show ?thesis using y(1) by blast
qed

text \<open>Integers below \<open>2 ^ 53\<close> are doubles.\<close>

lemma fl_round_of_int_pos:
  assumes "0 < n" and "n < 9007199254740992"
  shows "fl_round (of_int n) = Fin (of_int n)"
proof -
  obtain y u where n: "normalise (of_int n) = (y, u)" by (cases "normalise (of_int n :: rat)")
  have pos: "0 < (of_int n :: rat)" using assms(1) by simp
  have "(of_int n :: rat) < 9007199254740992" using assms(2) by simp
  then obtain k :: nat where k: "y = of_int n * 2 ^ k" "u = - int k"
    using normalise_spec [OF pos n] by blast
  have y: "y = of_int (n * 2 ^ k)" using k(1) by simp
  have "fl_round (of_int n) = pack False (n * 2 ^ k) (- int k)"
    using fl_round_pos [OF pos n] unfolding y k(2) roundTiesToEven_of_int .
  also have "\<dots> = Fin (of_int n * 2 ^ k * pow2 (- int k))"
    by (simp add: pack_def)
  also have "of_int n * 2 ^ k * pow2 (- int k) = (of_int n :: rat)"
    by (simp add: pow2_neg_nat)
  finally show ?thesis .
qed

lemma fl_round_of_int:
  assumes "\<bar>n\<bar> < 9007199254740992"
  shows "fl_round (of_int n) = Fin (of_int n)"
proof -
  consider "n = 0" | "0 < n" | "n < 0" by linarith
  then show ?thesis
  proof cases
    case 1
    then show ?thesis by simp
  next
    case 2
    then show ?thesis using fl_round_of_int_pos [of n] assms by simp
  next
    case 3
    then have "fl_round (of_int (- n)) = Fin (of_int (- n))"
      using fl_round_of_int_pos [of "- n"] assms by simp
    then show ?thesis using fl_round_minus [of "of_int (- n)"] by simp
  qed
qed

lemma fl_round_of_nat: "n < 9007199254740992 \<Longrightarrow> fl_round (of_nat n) = Fin (of_nat n)"
  using fl_round_of_int [of "int n"] by simp

text \<open>Rounding does not go below an integer that is a double.\<close>

lemma fl_round_ge_int:
  assumes "0 < n" and "n \<le> 9007199254740992" and "of_int n \<le> x"
  shows "fl_round x = PInf \<or> (\<exists>y. fl_round x = Fin y \<and> of_int n \<le> y)"
proof -
  have pos: "0 < x" using assms(1,3) by (smt (verit) of_int_pos order_less_le_trans)
  obtain y u where n: "normalise x = (y, u)" by (cases "normalise x")
  note sp = normalise_spec [OF pos n]
  have val: "y * pow2 u = x" and norm: "4503599627370496 \<le> y \<or> u = - 1074"
    using sp by simp_all
  define m where "m = roundTiesToEven y"
  have fl: "fl_round x = pack False m u" using fl_round_pos [OF pos n] by (simp add: m_def)
  show ?thesis
  proof (cases "u \<le> 0")
    case True
    define k where "k = nat (- u)"
    have uk: "u = - int k" using True by (simp add: k_def)
    have p: "pow2 u = 1 / 2 ^ k" unfolding uk by (rule pow2_neg_nat)
    have "y = x * 2 ^ k" using val unfolding p by (simp add: field_simps)
    then have "of_int (n * 2 ^ k) \<le> y" using assms(3) by simp
    then have "n * 2 ^ k \<le> m" unfolding m_def by (rule roundTiesToEven_ge)
    then have "(of_int (n * 2 ^ k) :: rat) \<le> of_int m" by (simp only: of_int_le_iff)
    then have "of_int n \<le> of_int m * pow2 u" unfolding p by (simp add: field_simps)
    moreover have "pack False m u = Fin (of_int m * pow2 u)" using True by (simp add: pack_def)
    ultimately show ?thesis using fl by simp
  next
    case False
    then have y52: "4503599627370496 \<le> y" using norm by auto
    have "(of_int 4503599627370496 :: rat) \<le> y" using y52 by simp
    then have "4503599627370496 \<le> m" unfolding m_def by (rule roundTiesToEven_ge)
    then have "(of_int 4503599627370496 :: rat) \<le> of_int m" by (simp only: of_int_le_iff)
    then have m52: "(4503599627370496 :: rat) \<le> of_int m" by simp
    have "pow2 1 \<le> pow2 u" using False by (intro pow2_mono) simp
    then have p2: "2 \<le> pow2 u" by (simp add: pow2_def)
    have "4503599627370496 * 2 \<le> of_int m * pow2 u"
      using m52 p2 by (intro mult_mono) simp_all
    moreover have "(of_int n :: rat) \<le> 9007199254740992" using assms(2) by simp
    ultimately have "of_int n \<le> of_int m * pow2 u" by simp
    then show ?thesis using fl by (simp add: pack_def)
  qed
qed

subsection \<open>Arithmetic on finite doubles\<close>

lemma zero_number [simp]: "(0 :: number) = Fin 0"
  by (rule zero_number_def)

lemma one_number [simp]: "(1 :: number) = Fin 1"
  by (rule one_number_def)

lemma Fin_plus [simp]: "Fin a + Fin b = fl_round (a + b)"
  by (simp add: plus_number_def)

lemma Fin_minus [simp]: "Fin a - Fin b = fl_round (a - b)"
  by (simp add: minus_number_def)

lemma Fin_times [simp]: "Fin a * Fin b = fl_round (a * b)"
  by (simp add: times_number_def)

lemma Fin_divide [simp]:
  "Fin a / Fin b = (if b = 0 then (if a = 0 then NaN else infinity (a < 0)) else fl_round (a / b))"
  by (simp add: divide_number_def)

lemma Fin_less [simp]: "Fin a < Fin b \<longleftrightarrow> a < b"
  by (simp add: less_number_def)

lemma Fin_le [simp]: "Fin a \<le> Fin b \<longleftrightarrow> a \<le> b"
  by (auto simp add: less_eq_number_def)

lemma Fin_abs [simp]: "\<bar>Fin a\<bar> = Fin \<bar>a\<bar>"
  by (simp add: abs_number_def)

lemma mathMin_Fin [simp]: "mathMin (Fin a) (Fin b) = Fin (min a b)"
  by (simp add: mathMin_def min_def)

lemma mathMax_Fin [simp]: "mathMax (Fin a) (Fin b) = Fin (max a b)"
  by (simp add: mathMax_def max_def)

lemma number_le_not_gt: "(a :: number) \<le> b \<Longrightarrow> \<not> b < a"
  by (cases a; cases b) (auto simp add: less_eq_number_def less_number_def)

lemma fl_round_1 [simp]: "fl_round 1 = Fin 1"
  using fl_round_of_int [of 1] by simp

lemma fl_round_nonneg:
  assumes "0 \<le> x"
  shows "fl_round x = PInf \<or> (\<exists>y. fl_round x = Fin y \<and> 0 \<le> y)"
proof (cases "x = 0")
  case True
  then show ?thesis by simp
next
  case False
  then have pos: "0 < x" using assms by simp
  obtain y u where n: "normalise x = (y, u)" by (cases "normalise x")
  have "0 < y" using normalise_spec [OF pos n] by simp
  then have "(of_int 0 :: rat) \<le> y" by simp
  then have "0 \<le> roundTiesToEven y" by (rule roundTiesToEven_ge)
  then show ?thesis
    using fl_round_pos [OF pos n] by (simp add: pack_def)
qed

subsection \<open>The store conversion\<close>

lemma roundTiesToEven_near:
  assumes "\<bar>x - of_int n\<bar> < 1 / 2"
  shows "roundTiesToEven x = n"
proof (cases "of_int n \<le> x")
  case True
  then have "\<lfloor>x\<rfloor> = n" using assms by (intro floor_unique) (auto simp: abs_if split: if_splits)
  then show ?thesis
    using assms True by (auto simp: roundTiesToEven_def tieBreak_def abs_if split: if_splits)
next
  case False
  then have "\<lfloor>x\<rfloor> = n - 1" using assms by (intro floor_unique) (auto simp: abs_if split: if_splits)
  then show ?thesis
    using assms False by (auto simp: roundTiesToEven_def tieBreak_def abs_if split: if_splits)
qed

lemma roundTiesToEven_numeral [simp]: "roundTiesToEven (numeral n) = numeral n"
  using roundTiesToEven_of_int [of "numeral n"] by simp

lemma roundTiesToEven_0 [simp]: "roundTiesToEven 0 = 0"
  using roundTiesToEven_of_int [of 0] by simp

lemma toUint8Clamp_le: "toUint8Clamp x \<le> 255"
proof (cases x)
  case (Fin a)
  have "min (max a 0) 255 \<le> of_int 255" by simp
  then have "roundTiesToEven (min (max a 0) 255) \<le> 255" by (rule roundTiesToEven_le)
  then show ?thesis using Fin by simp
qed simp_all

lemma toUint8Clamp_near:
  assumes "v \<le> 255" and "\<bar>x - of_nat v\<bar> < 1 / 2"
  shows "toUint8Clamp (Fin x) = v"
proof -
  define c where "c = min (max x 0) 255"
  have v: "(0 :: rat) \<le> of_nat v" "of_nat v \<le> (255 :: rat)"
    using assms(1) by (simp_all add: of_nat_le_iff [where 'a = rat, of v 255, simplified])
  have "\<bar>c - of_nat v\<bar> < 1 / 2"
    using assms(2) v unfolding c_def by (auto simp: min_def max_def abs_if split: if_splits)
  then have "\<bar>c - of_int (int v)\<bar> < 1 / 2" by simp
  then have "roundTiesToEven c = int v" by (rule roundTiesToEven_near)
  then show ?thesis by (simp add: c_def)
qed

lemma toUint8Clamp_byte: "v \<le> 255 \<Longrightarrow> toUint8Clamp (byte v) = v"
  unfolding byte_def by (rule toUint8Clamp_near) simp_all

lemma toUint8Clamp_min: "toUint8Clamp (mathMin (Fin 255) x) = toUint8Clamp x"
  by (cases x) (simp_all add: mathMin_def less_number_def min_def max_def)

lemma toUint8Clamp_clamp255: "toUint8Clamp (clamp255 x) = toUint8Clamp x"
  by (cases x) (simp_all add: clamp255_def mathMin_def mathMax_def less_number_def min_def max_def)

declare toUint8Clamp.simps(1) [simp del]

lemma toUint8Clamp_min_max:
  "toUint8Clamp (mathMin (Fin 255) (mathMax 0 x)) = toUint8Clamp (clamp255 x)"
  by (simp add: clamp255_def)

subsection \<open>The tone loop\<close>

lemma upt_0_3: "[0 ..< 3] = [0, 1, 2 :: nat]"
  by (simp add: upt_rec)

lemma length_brightnessLoop [simp]: "length (brightnessLoop b i d) = length d"
  by (simp add: brightnessLoop_def upt_0_3)

lemma length_contrastLoop [simp]: "length (contrastLoop b i d) = length d"
  by (simp add: contrastLoop_def upt_0_3)

lemma length_toneStep [simp]: "length (toneStep s i d) = length d"
  by (simp add: toneStep_def)

lemma brightnessLoop_nth:
  "k < length d \<Longrightarrow>
    brightnessLoop b i d ! k = (if i \<le> k \<and> k < i + 3 then brightnessByte b (d ! k) else d ! k)"
proof -
  assume k: "k < length d"
  have "(i \<le> k \<and> k < i + 3) = (k = i \<or> k = Suc i \<or> k = Suc (Suc i))" by arith
  then show ?thesis
    using k by (auto simp: brightnessLoop_def upt_0_3 nth_list_update)
qed

lemma contrastLoop_nth:
  "k < length d \<Longrightarrow>
    contrastLoop c i d ! k = (if i \<le> k \<and> k < i + 3 then contrastByte c (d ! k) else d ! k)"
proof -
  assume k: "k < length d"
  have "(i \<le> k \<and> k < i + 3) = (k = i \<or> k = Suc i \<or> k = Suc (Suc i))" by arith
  then show ?thesis
    using k by (auto simp: contrastLoop_def upt_0_3 nth_list_update)
qed

lemma toneStep_nth:
  "k < length d \<Longrightarrow>
    toneStep s i d ! k = (if i \<le> k \<and> k < i + 3 then toneByte s (d ! k) else d ! k)"
  by (simp add: toneStep_def toneByte_def brightnessLoop_nth contrastLoop_nth)

lemma length_fold_toneStep [simp]: "length (fold (toneStep s) is d) = length d"
  by (induction "is" arbitrary: d) simp_all

lemma fold_toneStep_nth:
  assumes "distinct is" and "\<forall>i\<in>set is. i mod 4 = 0" and "k < length d"
  shows "fold (toneStep s) is d ! k =
    (if k mod 4 \<noteq> 3 \<and> k - k mod 4 \<in> set is then toneByte s (d ! k) else d ! k)"
  using assms
proof (induction "is" arbitrary: d)
  case Nil
  then show ?case by simp
next
  case (Cons i "is")
  have i: "i mod 4 = 0" using Cons.prems(2) by simp
  have here: "(i \<le> k \<and> k < i + 3) = (k mod 4 \<noteq> 3 \<and> k - k mod 4 = i)"
    using i by presburger
  have "fold (toneStep s) (i # is) d ! k = fold (toneStep s) is (toneStep s i d) ! k"
    by simp
  also have "\<dots> = (if k mod 4 \<noteq> 3 \<and> k - k mod 4 \<in> set is
      then toneByte s (toneStep s i d ! k) else toneStep s i d ! k)"
    using Cons.prems by (intro Cons.IH) simp_all
  finally show ?case
    using Cons.prems(1,3) by (auto simp: toneStep_nth here)
qed

lemma toneLoop_nth:
  assumes "k < length d"
  shows "toneLoop s d ! k = (if k mod 4 \<noteq> 3 then toneByte s (d ! k) else d ! k)"
proof -
  have "k - k mod 4 < length d" using assms by simp
  moreover have "(k - k mod 4) mod 4 = 0" by presburger
  ultimately have "k - k mod 4 \<in> set [i \<leftarrow> [0 ..< length d]. i mod 4 = 0]" by simp
  then show ?thesis
    unfolding toneLoop_def using assms
    by (subst fold_toneStep_nth) simp_all
qed

lemma length_toneLoop [simp]: "length (toneLoop s d) = length d"
  by (simp add: toneLoop_def)

subsection \<open>Folds of guarded stores\<close>

lemma length_store [simp]: "length (store p f g t d) = length d"
  by (simp add: store_def)

lemma store_nth_hit: "p t \<Longrightarrow> f t < length d \<Longrightarrow> store p f g t d ! f t = g t"
  by (simp add: store_def)

lemma store_nth_other: "\<not> (p t \<and> f t = k \<and> k < length d) \<Longrightarrow> store p f g t d ! k = d ! k"
  by (cases "f t = k") (auto simp: store_def list_update_beyond not_less)

lemma store_same: "p t \<longrightarrow> f t < length d \<longrightarrow> g t = d ! f t \<Longrightarrow> store p f g t d = d"
  by (cases "f t < length d") (auto simp: store_def list_update_beyond not_less)

lemma length_fold_store [simp]: "length (fold (store p f g) ts d) = length d"
  by (induction ts arbitrary: d) simp_all

lemma fold_store_cases:
  "fold (store p f g) ts d ! k = d ! k \<or>
    (\<exists>t \<in> set ts. p t \<and> f t = k \<and> fold (store p f g) ts d ! k = g t)"
proof (induction ts rule: rev_induct)
  case Nil
  then show ?case by simp
next
  case (snoc a ts)
  show ?case
  proof (cases "p a \<and> f a = k \<and> k < length d")
    case True
    then have "fold (store p f g) (ts @ [a]) d ! k = g a"
      using store_nth_hit [of p a f "fold (store p f g) ts d" g] by auto
    with True show ?thesis by auto
  next
    case False
    then have "fold (store p f g) (ts @ [a]) d ! k = fold (store p f g) ts d ! k"
      by (simp add: store_nth_other)
    then show ?thesis using snoc.IH by auto
  qed
qed

lemma fold_store_other:
  assumes "\<forall>t \<in> set ts. p t \<longrightarrow> f t \<noteq> k"
  shows "fold (store p f g) ts d ! k = d ! k"
  using fold_store_cases [of p f g ts d k] assms by blast

lemma fold_store_hit:
  assumes "t \<in> set ts" and "inj_on f (set ts)" and "f t < length d"
  shows "fold (store p f g) ts d ! f t = (if p t then g t else d ! f t)"
  using assms
proof (induction ts rule: rev_induct)
  case Nil
  then show ?case by simp
next
  case (snoc a ts)
  show ?case
  proof (cases "a = t")
    case True
    show ?thesis
    proof (cases "p t")
      case True
      with \<open>a = t\<close> snoc.prems(3) show ?thesis by (simp add: store_nth_hit)
    next
      case False
      have "\<forall>u \<in> set ts. p u \<longrightarrow> f u \<noteq> f t"
      proof (intro ballI impI)
        fix u assume "u \<in> set ts" "p u"
        then have "u \<noteq> t" using False by auto
        then show "f u \<noteq> f t"
          using snoc.prems(2) \<open>u \<in> set ts\<close> \<open>a = t\<close> by (auto simp: inj_on_def)
      qed
      then have "fold (store p f g) ts d ! f t = d ! f t" by (rule fold_store_other)
      with False \<open>a = t\<close> show ?thesis by (simp add: store_nth_other)
    qed
  next
    case False
    then have t: "t \<in> set ts" using snoc.prems(1) by simp
    have "f a \<noteq> f t" using snoc.prems(2) False t by (auto simp: inj_on_def)
    moreover have "inj_on f (set ts)" using snoc.prems(2) by (auto simp: inj_on_def)
    ultimately show ?thesis using snoc.IH [OF t _ snoc.prems(3)] by (simp add: store_nth_other)
  qed
qed

lemma fold_store_same:
  assumes "\<forall>t \<in> set ts. p t \<longrightarrow> f t < length d \<longrightarrow> g t = d ! f t"
  shows "fold (store p f g) ts d = d"
  using assms by (induction ts) (simp_all add: store_same)

subsection \<open>The loop nest as one fold\<close>

lemma fold_concat_map: "fold f (concat (map g xs)) = fold (\<lambda>x. fold f (g x)) xs"
  by (induction xs) (simp_all add: fun_eq_iff)

lemma forPixels_visited:
  "forPixels radius width height body =
    fold (\<lambda>(y, x, c). body y x c) (visited radius width height)"
  by (simp add: forPixels_def visited_def fold_concat_map fold_map comp_def fun_eq_iff)

lemma set_for_range [simp]: "set (for_range lo hi) = {v. lo \<le> v \<and> v < hi}"
  by (auto simp: for_range_def)

lemma set_window_range [simp]: "set (window_range r) = {v. - r \<le> v \<and> v \<le> r}"
  by (auto simp: window_range_def)

lemma set_visited:
  "set (visited radius width height) =
    {(y, x, c). radius \<le> y \<and> y < height - radius \<and> radius \<le> x \<and> x < width - radius \<and>
      0 \<le> c \<and> c < 3}"
  by (auto simp: visited_def)

subsection \<open>Index arithmetic\<close>

lemma pixIdx_mod4: "0 \<le> c \<Longrightarrow> c < 4 \<Longrightarrow> pixIdx w y x c mod 4 = c"
  unfolding pixIdx_def by (subst mod_mult_self3) simp

lemma pixIdx_inj:
  assumes "0 \<le> x" "x < w" "0 \<le> x'" "x' < w" "0 \<le> c" "c < 4" "0 \<le> c'" "c' < 4"
    and eq: "pixIdx w y x c = pixIdx w y' x' c'"
  shows "y = y' \<and> x = x' \<and> c = c'"
proof -
  have "pixIdx w y x c mod 4 = pixIdx w y' x' c' mod 4"
    using eq by simp
  then have c: "c = c'" using assms(5-8) by (simp add: pixIdx_mod4)
  then have p: "y * w + x = y' * w + x'" using eq by (simp add: pixIdx_def)
  have "(y * w + x) div w = y" "(y' * w + x') div w = y'"
    using assms(1-4) by simp_all
  then have y: "y = y'" using p by simp
  then show ?thesis using c p by simp
qed

lemma pixIdx_nonneg: "0 \<le> w \<Longrightarrow> 0 \<le> y \<Longrightarrow> 0 \<le> x \<Longrightarrow> 0 \<le> c \<Longrightarrow> 0 \<le> pixIdx w y x c"
  by (simp add: pixIdx_def)

lemma pixIdx_less:
  assumes "0 \<le> y" "y < h" "0 \<le> x" "x < w" "c < 4"
  shows "pixIdx w y x c < w * h * 4"
proof -
  have "y + 1 \<le> h" using assms by simp
  then have "(y + 1) * w \<le> h * w" using assms by (intro mult_right_mono) simp_all
  then have "y * w + x < h * w" using assms by (simp add: algebra_simps)
  then show ?thesis using assms by (simp add: pixIdx_def algebra_simps)
qed

lemma nat_pixIdx_mod4:
  assumes "0 \<le> c" "c < 3"
  shows "nat (pixIdx w y x c) mod 4 \<noteq> 3"
proof (cases "0 \<le> pixIdx w y x c")
  case True
  have "pixIdx w y x c mod 4 = c" using assms by (simp add: pixIdx_mod4)
  then have "int (nat (pixIdx w y x c) mod 4) = c"
    using True by (simp add: zmod_int)
  then show ?thesis using assms by linarith
next
  case False
  then show ?thesis by simp
qed

lemma byteAt_simp [simp]: "byteAt w (y, x, c) = nat (pixIdx w y x c)"
  by (simp add: byteAt_def)

lemma inj_on_at:
  assumes "0 \<le> radius"
  shows "inj_on (byteAt w) (set (visited radius w h))"
proof (rule inj_onI)
  fix t u
  assume t: "t \<in> set (visited radius w h)" and u: "u \<in> set (visited radius w h)"
    and eq: "byteAt w t = byteAt w u"
  obtain y x c where t': "t = (y, x, c)" by (cases t)
  obtain y' x' c' where u': "u = (y', x', c')" by (cases u)
  have rt: "0 \<le> y" "0 \<le> x" "x < w" "0 \<le> c" "c < 4"
    using t assms unfolding t' set_visited by auto
  have ru: "0 \<le> y'" "0 \<le> x'" "x' < w" "0 \<le> c'" "c' < 4"
    using u assms unfolding u' set_visited by auto
  have w: "0 \<le> w" using rt by simp
  have "pixIdx w y x c = pixIdx w y' x' c'"
    using eq pixIdx_nonneg [OF w rt(1,2,4)] pixIdx_nonneg [OF w ru(1,2,4)]
    unfolding t' u' by simp
  then show "t = u"
    using pixIdx_inj [OF rt(2,3) ru(2,3) rt(4,5) ru(4,5)] unfolding t' u' by simp
qed

subsection \<open>Filter passes\<close>

lemma length_pass [simp]: "length (pass p g radius w h d) = length d"
  by (simp add: pass_def)

lemma pass_interior:
  assumes "0 \<le> radius" and "length d = nat (w * h * 4)"
    and "radius \<le> y" "y < h - radius" "radius \<le> x" "x < w - radius" "0 \<le> c" "c < 3"
  shows "pass p g radius w h d ! nat (pixIdx w y x c) =
    (if p (y, x, c) then g (y, x, c) else d ! nat (pixIdx w y x c))"
proof -
  have mem: "(y, x, c) \<in> set (visited radius w h)"
    using assms by (simp add: set_visited)
  have "pixIdx w y x c < w * h * 4"
    using assms by (intro pixIdx_less) simp_all
  moreover have "0 \<le> pixIdx w y x c"
    using assms by (intro pixIdx_nonneg) simp_all
  ultimately have "byteAt w (y, x, c) < length d"
    using assms(2) by (simp add: nat_less_eq_zless)
  from fold_store_hit [OF mem inj_on_at [OF assms(1)] this, of p g]
  show ?thesis by (simp add: pass_def)
qed

lemma pass_border:
  assumes "0 \<le> radius" and "0 \<le> y" "0 \<le> x" "x < w" "0 \<le> c" "c < 4"
    and out: "\<not> (radius \<le> y \<and> y < h - radius \<and> radius \<le> x \<and> x < w - radius \<and> c < 3)"
  shows "pass p g radius w h d ! nat (pixIdx w y x c) = d ! nat (pixIdx w y x c)"
proof -
  have w: "0 \<le> w" using assms by simp
  have "\<forall>t \<in> set (visited radius w h). p t \<longrightarrow> byteAt w t \<noteq> nat (pixIdx w y x c)"
  proof (intro ballI impI notI)
    fix t assume t: "t \<in> set (visited radius w h)" and eq: "byteAt w t = nat (pixIdx w y x c)"
    obtain y' x' c' where t': "t = (y', x', c')" by (cases t)
    have r: "radius \<le> y'" "y' < h - radius" "radius \<le> x'" "x' < w - radius" "0 \<le> c'" "c' < 3"
      using t unfolding t' set_visited by auto
    have "0 \<le> pixIdx w y' x' c'" "0 \<le> pixIdx w y x c"
      using r assms w by (simp_all add: pixIdx_nonneg)
    then have "pixIdx w y' x' c' = pixIdx w y x c"
      using eq unfolding t' by simp
    then have "y' = y \<and> x' = x \<and> c' = c"
      using r assms by (intro pixIdx_inj) simp_all
    then show False using r out by simp
  qed
  then show ?thesis unfolding pass_def by (rule fold_store_other)
qed

lemma pass_frame:
  assumes "\<And>t. g t \<le> 255"
  shows "pass p g radius w h d ! k = d ! k \<or>
    (k mod 4 \<noteq> 3 \<and> pass p g radius w h d ! k \<le> 255)"
proof -
  have "k mod 4 \<noteq> 3" if "t \<in> set (visited radius w h)" "byteAt w t = k" for t
  proof -
    obtain y x c where t': "t = (y, x, c)" by (cases t)
    have "0 \<le> c" "c < 3" using that(1) unfolding t' set_visited by auto
    then show ?thesis using nat_pixIdx_mod4 [of c w y x] that(2) unfolding t' by simp
  qed
  then show ?thesis
    using fold_store_cases [of p "byteAt w" g "visited radius w h" d k] assms
    unfolding pass_def by metis
qed

lemma pass_same:
  assumes "\<And>y x c. p (y, x, c) \<Longrightarrow> nat (pixIdx w y x c) < length d \<Longrightarrow>
    g (y, x, c) = d ! nat (pixIdx w y x c)"
  shows "pass p g radius w h d = d"
  unfolding pass_def by (rule fold_store_same) (auto simp: assms)

lemma denoise_pass:
  "forPixels radius w h (denoiseBody T w radius s) =
    pass (\<lambda>_. True) (\<lambda>(y, x, c). denoiseByte T w radius s y x c) radius w h"
  by (auto simp: forPixels_visited pass_def fun_eq_iff denoiseBody_def store_def
      intro!: arg_cong [where f = "\<lambda>f. fold f _ _"])

lemma deblur_pass:
  "forPixels radius w h (deblurBody T w radius amount threshold) =
    pass (\<lambda>(y, x, c). \<bar>deblurDiff T w radius y x c\<bar> > threshold)
      (\<lambda>(y, x, c). deblurByte T w radius amount y x c) radius w h"
  by (auto simp: forPixels_visited pass_def fun_eq_iff deblurBody_def store_def deblurByte_def
      Let_def simp del: zero_number intro!: arg_cong [where f = "\<lambda>f. fold f _ _"])

lemma sharpen_pass:
  "forPixels radius w h (sharpenBody T w kern) =
    pass (\<lambda>_. True)
      (\<lambda>(y, x, c). toUint8Clamp (mathMin (Fin 255) (mathMax 0 (sharpenSum T w kern y x c))))
      radius w h"
  by (auto simp: forPixels_visited pass_def fun_eq_iff sharpenBody_def store_def Let_def
      simp del: zero_number intro!: arg_cong [where f = "\<lambda>f. fold f _ _"])

subsection \<open>Windows\<close>

lemma window_range_1: "window_range 1 = [- 1, 0, 1]"
  unfolding window_range_def by (simp add: upto.simps)

lemma for_range_0_3: "for_range 0 3 = [0, 1, 2]"
  unfolding for_range_def by (simp add: upto.simps)

lemma length_window_range: "0 \<le> r \<Longrightarrow> length (window_range r) = nat (2 * r + 1)"
  by (simp add: window_range_def)

lemma length_concat_const:
  "(\<And>x. x \<in> set xs \<Longrightarrow> length (f x) = n) \<Longrightarrow> length (concat (map f xs)) = length xs * n"
  by (induction xs) simp_all

lemma length_windowValues:
  assumes "0 \<le> r"
  shows "length (windowValues T w r y x c) = nat ((2 * r + 1)\<^sup>2)"
proof -
  have "length (windowValues T w r y x c) = nat (2 * r + 1) * nat (2 * r + 1)"
    unfolding windowValues_def using assms
    by (subst length_concat_const [where n = "nat (2 * r + 1)"])
      (simp_all add: length_window_range)
  also have "\<dots> = nat ((2 * r + 1)\<^sup>2)"
    using assms by (simp add: power2_eq_square nat_mult_distrib)
  finally show ?thesis .
qed

subsection \<open>The bytes of the tone loop\<close>

lemma brightnessByte_clamp:
  "brightnessByte b v = toUint8Clamp (clamp255 (byte v * b))"
  by (simp add: brightnessByte_def toUint8Clamp_min toUint8Clamp_clamp255)

lemma contrastByte_clamp:
  "contrastByte k v =
    toUint8Clamp (clamp255 (((byte v / Fin 255 - Fin (1 / 2)) * k + Fin (1 / 2)) * Fin 255))"
  by (simp add: contrastByte_def toUint8Clamp_min toUint8Clamp_clamp255)

subsection \<open>The stages as passes\<close>

lemma denoiseData_pass:
  "denoiseData w h s d =
    (case loopRadius (mathCeil (s * Fin 2)) of
       None \<Rightarrow> d
     | Some r \<Rightarrow> pass (\<lambda>_. True) (\<lambda>(y, x, c). denoiseByte d w r s y x c) r w h d)"
  by (simp add: denoiseData_def denoise_pass Let_def split: option.split)

lemma deblurData_pass:
  "deblurData w h s d =
    (case loopRadius (mathCeil (s * Fin 3)) of
       None \<Rightarrow> d
     | Some r \<Rightarrow>
        pass (\<lambda>(y, x, c). \<bar>deblurDiff d w r y x c\<bar> > Fin 10)
          (\<lambda>(y, x, c). deblurByte d w r (s * Fin (3 / 2)) y x c) r w h d)"
  by (simp add: deblurData_def deblur_pass Let_def split: option.split)

lemma sharpen_pass':
  "sharpen w h s d =
    (if sharpness s > 1
     then pass (\<lambda>_. True)
       (\<lambda>(y, x, c). toUint8Clamp (clamp255
          (sharpenSum d w (sharpenKernel ((sharpness s - 1) * lit (8 / 10))) y x c))) 1 w h d
     else d)"
  by (simp add: sharpen_def sharpen_pass clamp255_def del: zero_number one_number)

subsection \<open>What a stage keeps\<close>

lemma keepsFrame_refl: "keepsFrame d d"
  by (simp add: keepsFrame_def)

lemma keepsFrame_trans: "keepsFrame a b \<Longrightarrow> keepsFrame b c \<Longrightarrow> keepsFrame a c"
  unfolding keepsFrame_def by (metis (no_types, lifting))

lemma keepsFrame_pass: "(\<And>t. g t \<le> 255) \<Longrightarrow> keepsFrame d (pass p g r w h d)"
  unfolding keepsFrame_def using pass_frame [of g p r w h d] by simp

lemma keepsFrame_denoiseData: "keepsFrame d (denoiseData w h s d)"
  unfolding denoiseData_pass
  by (auto intro!: keepsFrame_pass keepsFrame_refl
      simp: denoiseByte_def Let_def toUint8Clamp_le split: prod.split option.split)

lemma keepsFrame_deblurData: "keepsFrame d (deblurData w h s d)"
  unfolding deblurData_pass
  by (auto intro!: keepsFrame_pass keepsFrame_refl
      simp: deblurByte_def toUint8Clamp_le split: prod.split option.split)

lemma keepsFrame_sharpen: "keepsFrame d (sharpen w h s d)"
  unfolding sharpen_pass'
  by (auto intro!: keepsFrame_pass keepsFrame_refl simp: toUint8Clamp_le split: prod.split)

lemma toneByte_le: "toneByte s v \<le> 255"
  by (simp add: toneByte_def contrastByte_def toUint8Clamp_le)

lemma keepsFrame_toneLoop: "keepsFrame d (toneLoop s d)"
  by (simp add: keepsFrame_def toneLoop_nth toneByte_le)

lemma applyDenoise_eq:
  "applyDenoise ctx w h s =
    (if w = 0 \<or> h = 0 then Inl IndexSizeError else Inr (denoiseData w h s ctx))"
  by (simp add: applyDenoise_def getImageData_def)

lemma applyDeblur_eq:
  "applyDeblur ctx w h s =
    (if w = 0 \<or> h = 0 then Inl IndexSizeError else Inr (deblurData w h s ctx))"
  by (simp add: applyDeblur_def getImageData_def)

lemmas eval =
  fl_round_def normalise_def scaleUp.simps scaleDown.simps roundTiesToEven_def tieBreak_def
  pack_def pow2_def lit_def byte_def toUint8Clamp.simps

lemma applyImageEnhancements_eq:
  "applyImageEnhancements ctx w h s =
    (if w = 0 \<or> h = 0 then Inl IndexSizeError else Inr (pipeline w h s ctx))"
  by (simp add: applyImageEnhancements_def applyDenoise_eq applyDeblur_eq getImageData_def
      pipeline_def del: zero_number one_number)

lemma keepsFrame_pipeline: "keepsFrame d (pipeline w h s d)"
proof -
  let ?d1 = "(if denoise s > 0 then denoiseData w h (denoise s) else id) d"
  let ?d2 = "(if deblur s > 0 then deblurData w h (deblur s) else id) ?d1"
  have 1: "keepsFrame d ?d1"
    by (simp add: keepsFrame_refl keepsFrame_denoiseData)
  have 2: "keepsFrame ?d1 ?d2"
    by (simp add: keepsFrame_refl keepsFrame_deblurData)
  have 3: "keepsFrame ?d2 (toneLoop s ?d2)"
    by (rule keepsFrame_toneLoop)
  have 4: "keepsFrame (toneLoop s ?d2) (sharpen w h s (toneLoop s ?d2))"
    by (rule keepsFrame_sharpen)
  have "keepsFrame d (sharpen w h s (toneLoop s ?d2))"
    by (rule keepsFrame_trans [OF keepsFrame_trans [OF keepsFrame_trans [OF 1 2] 3] 4])
  then show ?thesis by (simp add: pipeline_def)
qed

subsection \<open>Brightness 1 and contrast 1\<close>

lemma brightnessByte_one: "v \<le> 255 \<Longrightarrow> brightnessByte 1 v = v"
  using toUint8Clamp_byte [of v]
  by (simp add: brightnessByte_def toUint8Clamp_min byte_def fl_round_of_nat)

lemma contrastByte_one:
  assumes "v \<le> 255"
  shows "contrastByte 1 v = v"
proof -
  define q :: rat where "q = of_nat v / 255"
  have q: "0 \<le> q" "q \<le> 1" "q * 255 = of_nat v"
    using assms by (simp_all add: q_def of_nat_le_iff [where 'a = rat, of v 255, simplified])
  obtain y1 where y1: "fl_round q = Fin y1" "\<bar>y1 - q\<bar> \<le> 1 / 4294967296"
    using fl_round_near [of q] q by auto
  have "\<bar>y1 - 1 / 2\<bar> \<le> 1048576" using y1(2) q by linarith
  then obtain y2 where y2: "fl_round (y1 - 1 / 2) = Fin y2" "\<bar>y2 - (y1 - 1 / 2)\<bar> \<le> 1 / 4294967296"
    using fl_round_near [of "y1 - 1 / 2"] by auto
  have "\<bar>y2 * 1\<bar> \<le> 1048576" using y1(2) y2(2) q by linarith
  then obtain y3 where y3: "fl_round (y2 * 1) = Fin y3" "\<bar>y3 - y2 * 1\<bar> \<le> 1 / 4294967296"
    using fl_round_near [of "y2 * 1"] by auto
  have "\<bar>y3 + 1 / 2\<bar> \<le> 1048576" using y1(2) y2(2) y3(2) q by linarith
  then obtain y4 where y4: "fl_round (y3 + 1 / 2) = Fin y4" "\<bar>y4 - (y3 + 1 / 2)\<bar> \<le> 1 / 4294967296"
    using fl_round_near [of "y3 + 1 / 2"] by auto
  have "\<bar>y4 * 255\<bar> \<le> 1048576" using y1(2) y2(2) y3(2) y4(2) q by linarith
  then obtain y5 where y5: "fl_round (y4 * 255) = Fin y5" "\<bar>y5 - y4 * 255\<bar> \<le> 1 / 4294967296"
    using fl_round_near [of "y4 * 255"] by auto
  have near: "\<bar>y5 - of_nat v\<bar> < 1 / 2"
    using y1(2) y2(2) y3(2) y4(2) y5(2) q by linarith
  have e: "((byte v / Fin 255 - Fin (1 / 2)) * 1 + Fin (1 / 2)) * Fin 255 = Fin y5"
    unfolding byte_def one_number Fin_divide Fin_minus Fin_times Fin_plus
    using y1(1) y2(1) y3(1) y4(1) y5(1)
    by (simp add: q_def)
  have "contrastByte 1 v = toUint8Clamp (Fin y5)"
    unfolding contrastByte_def e toUint8Clamp_min ..
  then show ?thesis using toUint8Clamp_near [OF assms near] by simp
qed

lemma toneByte_one:
  "brightness s = 1 \<Longrightarrow> contrast s = 1 \<Longrightarrow> v \<le> 255 \<Longrightarrow> toneByte s v = v"
  by (simp add: toneByte_def brightnessByte_one contrastByte_one del: one_number)

lemma toneLoop_pixel:
  "toneLoop s [r, g, b, a] = [toneByte s r, toneByte s g, toneByte s b, a]"
proof (rule nth_equalityI)
  show "length (toneLoop s [r, g, b, a]) = length [toneByte s r, toneByte s g, toneByte s b, a]"
    by simp
next
  fix i assume "i < length (toneLoop s [r, g, b, a])"
  then have "i < 4" by simp
  then consider "i = 0" | "i = 1" | "i = 2" | "i = 3" by linarith
  then show "toneLoop s [r, g, b, a] ! i = [toneByte s r, toneByte s g, toneByte s b, a] ! i"
    by cases (simp_all add: toneLoop_nth)
qed

subsection \<open>Strength zero\<close>

lemma fl_round_byte: "v \<le> 255 \<Longrightarrow> fl_round (of_nat v) = Fin (of_nat v)"
  by (rule fl_round_of_nat) simp

lemma sharpen_skip: "sharpness s \<le> 1 \<Longrightarrow> sharpen w h s d = d"
  using number_le_not_gt [of "sharpness s" 1] by (simp add: sharpen_def del: one_number)

lemma window_range_0: "window_range 0 = [0]"
  unfolding window_range_def by (simp add: upto.simps)

lemma windowValues_0: "windowValues d w 0 y x c = [d ! nat (pixIdx w y x c)]"
  by (simp add: windowValues_def window_range_0)

lemma denoiseByte_0:
  assumes "d ! nat (pixIdx w y x c) \<le> 255"
  shows "denoiseByte d w 0 0 y x c = d ! nat (pixIdx w y x c)"
  using assms toUint8Clamp_byte [OF assms]
  by (simp add: denoiseByte_def windowValues_0 byte_def fl_round_byte)

lemma deblurDiff_0:
  assumes "d ! nat (pixIdx w y x c) \<le> 255"
  shows "deblurDiff d w 0 y x c = Fin 0"
  using assms by (simp add: deblurDiff_def localSum_def windowValues_0 byte_def fl_round_byte)

lemma radius_0 [simp]: "loopRadius (mathCeil (0 * Fin k)) = Some 0"
  by simp

lemma denoiseData_0:
  assumes "\<forall>b \<in> set d. b \<le> 255"
  shows "denoiseData w h 0 d = d"
proof -
  have "pass (\<lambda>_. True) (\<lambda>(y, x, c). denoiseByte d w 0 0 y x c) 0 w h d = d"
  proof (rule pass_same)
    fix y x c assume "nat (pixIdx w y x c) < length d"
    then have "d ! nat (pixIdx w y x c) \<le> 255" using assms by simp
    then show "(case (y, x, c) of (y, x, c) \<Rightarrow> denoiseByte d w 0 0 y x c) =
        d ! nat (pixIdx w y x c)"
      by (simp add: denoiseByte_0 del: zero_number)
  qed
  then show ?thesis unfolding denoiseData_pass radius_0 by simp
qed

lemma deblurData_0:
  assumes "\<forall>b \<in> set d. b \<le> 255"
  shows "deblurData w h 0 d = d"
proof -
  have "pass (\<lambda>(y, x, c). \<bar>deblurDiff d w 0 y x c\<bar> > Fin 10)
      (\<lambda>(y, x, c). deblurByte d w 0 (0 * Fin (3 / 2)) y x c) 0 w h d = d"
  proof (rule pass_same)
    fix y x c
    assume p: "case (y, x, c) of (y, x, c) \<Rightarrow> \<bar>deblurDiff d w 0 y x c\<bar> > Fin 10"
      and "nat (pixIdx w y x c) < length d"
    then have "d ! nat (pixIdx w y x c) \<le> 255" using assms by simp
    then have "deblurDiff d w 0 y x c = Fin 0" by (rule deblurDiff_0)
    then have False using p by simp
    then show "(case (y, x, c) of (y, x, c) \<Rightarrow> deblurByte d w 0 (0 * Fin (3 / 2)) y x c) =
        d ! nat (pixIdx w y x c)" ..
  qed
  then show ?thesis unfolding deblurData_pass radius_0 by simp
qed

section \<open>The claims\<close>

subsection \<open>Tone adjustment\<close>

theorem tone_identity:
  assumes "brightness s = 1" and "contrast s = 1" and "\<forall>b \<in> set data. b \<le> 255"
  shows "toneLoop s data = data"
proof (rule nth_equalityI)
  show "length (toneLoop s data) = length data" by simp
next
  fix k assume "k < length (toneLoop s data)"
  then have k: "k < length data" by simp
  then have "data ! k \<le> 255" using assms(3) by simp
  then show "toneLoop s data ! k = data ! k"
    using k assms(1,2) by (simp add: toneLoop_nth toneByte_one del: one_number)
qed

theorem tone_identity_witness:
  "toneLoop balanced [0, 1, 128, 255, 254, 77, 200, 3] = [0, 1, 128, 255, 254, 77, 200, 3]"
  using tone_identity [of balanced "[0, 1, 128, 255, 254, 77, 200, 3]"]
  by (simp add: balanced_def ENHANCEMENT_PRESETS_def)


text \<open>
  Claim C6 as stated chains the two formulas on numbers. The code stores the byte the
  brightness step gives before the contrast step reads it. With the AI Enhance preset
  (brightness 1.1, contrast 1.2) a channel of value 22 ends at 3: \<open>22 * 1.1 = 24.2\<close> is
  stored as 24, and the contrast of 24 is 3.3. The formulas chained without the store give
  \<open>24.2 * 1.2 - 25.5 = 3.54\<close>, the byte 4.
\<close>

theorem tone_order_counterexample:
  "toneLoop aiEnhance [22, 22, 22, 255] = [3, 3, 3, 255] \<and>
   toUint8Clamp (toneUnrounded aiEnhance 22) = 4"
proof -
  have b: "brightnessByte (brightness aiEnhance) 22 = 24"
    by (simp add: aiEnhance_def ENHANCEMENT_PRESETS_def brightnessByte_def eval)
  have c: "contrastByte (contrast aiEnhance) 24 = 3"
    by (simp add: aiEnhance_def ENHANCEMENT_PRESETS_def contrastByte_def eval)
  have "toneByte aiEnhance 22 = 3"
    unfolding toneByte_def b c ..
  then have 1: "toneLoop aiEnhance [22, 22, 22, 255] = [3, 3, 3, 255]"
    by (simp add: toneLoop_pixel)
  have 2: "toUint8Clamp (toneUnrounded aiEnhance 22) = 4"
    by (simp add: toneUnrounded_def aiEnhance_def ENHANCEMENT_PRESETS_def clamp255_def eval
        del: one_number)
  from 1 2 show ?thesis ..
qed

text \<open>
  Claim C6, amended. For every buffer and every colour channel of every pixel, the tone
  loop applies brightness first and contrast second, each step storing a byte: the byte
  \<open>v\<close> becomes \<open>clamp(v * brightness, 0, 255)\<close>, rounded to the nearest byte (a tie to the
  even one), and that byte \<open>v'\<close> becomes
  \<open>clamp(((v' / 255 - 0.5) * contrast + 0.5) * 255, 0, 255)\<close>, rounded the same way; the
  arithmetic is that of doubles. A channel of value 200 with brightness 1.2 and contrast
  1.0 ends at 240. Every pixel of the frame is adjusted, with no border skip; the alpha
  bytes stay.
\<close>

theorem tone_order:
  "length (toneLoop s data) = length data \<and>
   (\<forall>k < length data.
      toneLoop s data ! k =
        (if k mod 4 \<noteq> 3
         then toUint8Clamp (clamp255
           (((byte (toUint8Clamp (clamp255 (byte (data ! k) * brightness s))) / Fin 255
               - Fin (1 / 2)) * contrast s + Fin (1 / 2)) * Fin 255))
         else data ! k)) \<and>
   (brightness s = lit (12 / 10) \<and> contrast s = 1 \<longrightarrow>
      (\<forall>k < length data. k mod 4 \<noteq> 3 \<and> data ! k = 200 \<longrightarrow> toneLoop s data ! k = 240))"
proof (intro conjI allI impI)
  show "length (toneLoop s data) = length data" by simp
next
  fix k assume "k < length data"
  then show "toneLoop s data ! k =
      (if k mod 4 \<noteq> 3
       then toUint8Clamp (clamp255
         (((byte (toUint8Clamp (clamp255 (byte (data ! k) * brightness s))) / Fin 255
             - Fin (1 / 2)) * contrast s + Fin (1 / 2)) * Fin 255))
       else data ! k)"
    by (simp add: toneLoop_nth toneByte_def brightnessByte_clamp contrastByte_clamp)
next
  fix k assume s: "brightness s = lit (12 / 10) \<and> contrast s = 1"
    and k: "k < length data" "k mod 4 \<noteq> 3 \<and> data ! k = 200"
  have b: "brightnessByte (lit (12 / 10)) 200 = 240"
    by (simp add: brightnessByte_def eval)
  have c: "contrastByte 1 240 = 240" by (rule contrastByte_one) simp
  from s have bs: "brightness s = lit (12 / 10)" and cs: "contrast s = 1" by blast+
  have "toneByte s 200 = 240"
    unfolding toneByte_def bs cs b c ..
  then show "toneLoop s data ! k = 240"
    using k by (simp add: toneLoop_nth)
qed

text \<open>
  With the HDR preset (brightness 1.15, contrast 1.3) the byte 50 ends at 36: brightness
  gives 57, contrast of 57 gives 36. Contrast first would give 27 and then 31.
\<close>

theorem tone_order_witness:
  "toneLoop hdr [50, 200, 28, 255] ! 0 = 36 \<and>
   brightnessByte (brightness hdr) (contrastByte (contrast hdr) 50) = 31 \<and>
   toneLoop brighter [200, 100, 7, 255] ! 0 = 240"
proof -
  let ?d = "[50, 200, 28, 255 :: nat]"
  let ?e = "[200, 100, 7, 255 :: nat]"
  have b: "toUint8Clamp (clamp255 (byte 50 * brightness hdr)) = 57"
    by (simp add: hdr_def ENHANCEMENT_PRESETS_def clamp255_def eval)
  have c: "toUint8Clamp (clamp255
      (((byte 57 / Fin 255 - Fin (1 / 2)) * contrast hdr + Fin (1 / 2)) * Fin 255)) = 36"
    by (simp add: hdr_def ENHANCEMENT_PRESETS_def clamp255_def eval)
  have "toneLoop hdr ?d ! 0 =
      toUint8Clamp (clamp255
        (((byte (toUint8Clamp (clamp255 (byte (?d ! 0) * brightness hdr))) / Fin 255
            - Fin (1 / 2)) * contrast hdr + Fin (1 / 2)) * Fin 255))"
    using tone_order [of hdr ?d, THEN conjunct2, THEN conjunct1, rule_format, of 0] by simp
  also have "\<dots> = 36"
    by (simp only: nth_Cons_0 b c)
  finally have 1: "toneLoop hdr ?d ! 0 = 36" .
  have c2: "contrastByte (contrast hdr) 50 = 27"
    by (simp add: hdr_def ENHANCEMENT_PRESETS_def contrastByte_def eval)
  have b2: "brightnessByte (brightness hdr) 27 = 31"
    by (simp add: hdr_def ENHANCEMENT_PRESETS_def brightnessByte_def eval)
  have 2: "brightnessByte (brightness hdr) (contrastByte (contrast hdr) 50) = 31"
    unfolding c2 b2 ..
  have "brightness brighter = lit (12 / 10) \<and> contrast brighter = 1"
    by (simp add: brighter_def del: one_number)
  then have "\<forall>k < length ?e. k mod 4 \<noteq> 3 \<and> ?e ! k = 200 \<longrightarrow> toneLoop brighter ?e ! k = 240"
    using tone_order [of brighter ?e] by blast
  then have 3: "toneLoop brighter ?e ! 0 = 240" by simp
  from 1 2 3 show ?thesis by simp
qed


subsection \<open>The pipeline\<close>

text \<open>
  Claim C2. For every buffer and each of the four stages (denoise, deblur, tone adjustment,
  sharpen), every byte the stage changes is a colour byte and lies in \<open>[0, 255]\<close>, and
  every alpha byte is the same after the stage as before it (\<open>keepsFrame\<close>). This holds
  for the loops \<open>denoiseData\<close> and \<open>deblurData\<close>, for \<^verbatim>\<open>applyDenoise\<close> and
  \<^verbatim>\<open>applyDeblur\<close> around them, for the tone loop and the sharpening block, and for the
  whole of \<^verbatim>\<open>applyImageEnhancements\<close>. The tone loop writes every colour byte, and each
  is at most 255. (A filter called on its own is given a strength of 0 or more.)
\<close>

theorem stages_keep_frame:
  assumes "0 \<le> strength"
  shows "keepsFrame data (denoiseData width height strength data) \<and>
   keepsFrame data (deblurData width height strength data) \<and>
   keepsFrame data (toneLoop s data) \<and>
   keepsFrame data (sharpen width height s data) \<and>
   (\<forall>out. applyDenoise data width height strength = Inr out \<longrightarrow> keepsFrame data out) \<and>
   (\<forall>out. applyDeblur data width height strength = Inr out \<longrightarrow> keepsFrame data out) \<and>
   (\<forall>out. applyImageEnhancements data width height s = Inr out \<longrightarrow> keepsFrame data out) \<and>
   (\<forall>k < length data. k mod 4 \<noteq> 3 \<longrightarrow> toneLoop s data ! k \<le> 255)"
proof -
  have "keepsFrame data out" if "applyImageEnhancements data width height s = Inr out" for out
    using that keepsFrame_pipeline [of data width height s]
    by (auto simp: applyImageEnhancements_eq split: if_splits)
  moreover have "keepsFrame data out" if "applyDenoise data width height strength = Inr out"
    for out
    using that keepsFrame_denoiseData [of data width height strength]
    by (auto simp: applyDenoise_eq split: if_splits)
  moreover have "keepsFrame data out" if "applyDeblur data width height strength = Inr out"
    for out
    using that keepsFrame_deblurData [of data width height strength]
    by (auto simp: applyDeblur_eq split: if_splits)
  ultimately show ?thesis
    by (simp add: keepsFrame_denoiseData keepsFrame_deblurData keepsFrame_toneLoop
        keepsFrame_sharpen toneLoop_nth toneByte_le)
qed

theorem stages_keep_frame_witness:
  "length (denoiseData 3 3 (lit (3 / 10)) img3) = 36 \<and>
   denoiseData 3 3 (lit (3 / 10)) img3 ! 19 = 255 \<and>
   (denoiseData 3 3 (lit (3 / 10)) img3 ! 16 = 200 \<or>
    denoiseData 3 3 (lit (3 / 10)) img3 ! 16 \<le> 255)"
proof -
  have "0 \<le> lit (3 / 10)" by (simp add: eval)
  then have "keepsFrame img3 (denoiseData 3 3 (lit (3 / 10)) img3)"
    using stages_keep_frame [where strength = "lit (3 / 10)" and data = img3 and width = 3
        and height = 3]
    by blast
  then have len: "length (denoiseData 3 3 (lit (3 / 10)) img3) = length img3"
    and at: "\<And>k. k < length img3 \<Longrightarrow>
      denoiseData 3 3 (lit (3 / 10)) img3 ! k = img3 ! k \<or>
      (k mod 4 \<noteq> 3 \<and> denoiseData 3 3 (lit (3 / 10)) img3 ! k \<le> 255)"
    by (simp_all add: keepsFrame_def)
  show ?thesis
    using len at [of 19] at [of 16] by (simp add: img3_def)
qed

text \<open>
  Claim C3. The no-op laws: \<^verbatim>\<open>applyDenoise\<close> with strength 0 and \<^verbatim>\<open>applyDeblur\<close> with
  strength 0 each leave a buffer of bytes as it was, and with \<open>settings.sharpness \<le> 1\<close> the
  sharpening block does too. (The canvas has a width and a height other than zero.)
\<close>

theorem noop_laws:
  assumes "width \<noteq> 0" and "height \<noteq> 0" and "\<forall>b \<in> set ctx. b \<le> 255"
  shows "applyDenoise ctx width height 0 = Inr ctx \<and>
    applyDeblur ctx width height 0 = Inr ctx \<and>
    (sharpness s \<le> 1 \<longrightarrow> sharpen width height s ctx = ctx)"
  using assms
  by (simp add: applyDenoise_eq applyDeblur_eq denoiseData_0 deblurData_0 sharpen_skip
      del: zero_number one_number)

theorem noop_laws_witness:
  "applyDenoise img3 3 3 0 = Inr img3 \<and> applyDeblur img3 3 3 0 = Inr img3 \<and>
   sharpen 3 3 \<lparr>brightness = 1, contrast = 1, sharpness = 1, deblur = 0, denoise = 0\<rparr> img3 = img3"
proof -
  have "\<forall>b \<in> set img3. b \<le> 255" by (simp add: img3_def)
  from noop_laws [of 3 3 img3
      "\<lparr>brightness = 1, contrast = 1, sharpness = 1, deblur = 0, denoise = 0\<rparr>", OF _ _ this]
  show ?thesis by simp
qed

subsection \<open>The canvas and \<^verbatim>\<open>enhanceImage\<close>\<close>

lemma enhanceImage_eq:
  assumes "currentImage st = Some img"
    and "cw = canvasDimension 300
      (Fin (of_nat (pic_width img)) * (dpi (selectedResolution st) / Fin 72))"
    and "ch = canvasDimension 150
      (Fin (of_nat (pic_height img)) * (dpi (selectedResolution st) / Fin 72))"
  shows "enhanceImage hasContext drawImage st =
    (if \<not> hasContext then Fulfilled (st\<lparr>isProcessing := False\<rparr>)
     else if cw = 0 \<or> ch = 0 then Unsettled IndexSizeError (st\<lparr>isProcessing := True\<rparr>)
     else Fulfilled (st\<lparr>currentImage :=
       Some \<lparr>pic_width = nat cw, pic_height = nat ch,
         pic_data = pipeline cw ch (settings (selectedPreset st)) (drawImage img cw ch)\<rparr>,
       isProcessing := False\<rparr>))"
  using assms by (simp add: enhanceImage_def Let_def applyImageEnhancements_eq)

lemma canvasDimension_floor:
  assumes "0 \<le> x" and "x < 2 ^ 31"
  shows "canvasDimension d (Fin x) = \<lfloor>x\<rfloor>"
proof -
  have f0: "0 \<le> \<lfloor>x\<rfloor>" using assms(1) by simp
  have f1: "\<lfloor>x\<rfloor> < 2 ^ 31" using assms(2) by (simp add: floor_less_iff)
  then have "\<lfloor>x\<rfloor> mod 2 ^ 32 = \<lfloor>x\<rfloor>" using f0 by simp
  then show ?thesis
    using assms(1) f1 by (simp add: canvasDimension_def integerPart_def)
qed

lemma canvasDimension_zero_times [simp]: "canvasDimension d (Fin 0 * x) = 0"
  by (cases x) (simp_all add: canvasDimension_def integerPart_def times_number_def)

text \<open>A product with a scale factor of at least 1 is not below the integer scaled.\<close>

lemma scaled_ge:
  assumes "0 < n" and "72 \<le> d" and "Fin (of_nat n) * (Fin d / Fin 72) = Fin p"
    and "p < 9007199254740992"
  shows "of_nat n \<le> p"
proof -
  have "of_int 1 \<le> d / 72" using assms(2) by simp
  from fl_round_ge_int [OF _ _ this]
  consider "fl_round (d / 72) = PInf" | f where "fl_round (d / 72) = Fin f" "1 \<le> f"
    by auto
  then show ?thesis
  proof cases
    case 1
    then show ?thesis using assms(1,2,3) by (simp add: times_number_def infinity_def)
  next
    case 2
    then have p: "fl_round (of_nat n * f) = Fin p" using assms(2,3) by simp
    define m :: int where "m = min (int n) 9007199254740992"
    have m: "0 < m" "m \<le> 9007199254740992" "m \<le> int n"
      using assms(1) by (simp_all add: m_def)
    have "(of_int m :: rat) \<le> of_int (int n)" using m(3) by (simp only: of_int_le_iff)
    also have "\<dots> = of_nat n * 1" by simp
    also have "\<dots> \<le> of_nat n * f" using 2(2) by (intro mult_left_mono) simp_all
    finally have "of_int m \<le> of_nat n * f" .
    from fl_round_ge_int [OF m(1,2) this] have mp: "of_int m \<le> p" using p by simp
    have "m \<noteq> 9007199254740992" using mp assms(4) by auto
    then have "m = int n" by (simp add: m_def min_def split: if_splits)
    then show ?thesis using mp by simp
  qed
qed

lemma scaled_same:
  assumes "Fin (of_nat n) * (Fin 72 / Fin 72) = Fin p" and "p < 9007199254740992"
  shows "p = of_nat n"
proof -
  have p: "fl_round (of_nat n) = Fin p" using assms(1) by simp
  show ?thesis
  proof (cases "n < 9007199254740992")
    case True
    then show ?thesis using p by (simp add: fl_round_of_nat)
  next
    case False
    then have "of_int 9007199254740992 \<le> (of_nat n :: rat)"
      by (metis not_less of_int_numeral of_nat_le_iff of_nat_numeral)
    from fl_round_ge_int [OF _ _ this] have "9007199254740992 \<le> p" using p by simp
    then show ?thesis using assms(2) by simp
  qed
qed

section \<open>Resampling and failure\<close>

text \<open>
  Claim C8 as stated asks for the rounded dimensions \<open>round(width * dpi / 72)\<close>. A 7 by 7
  picture at 150 dpi comes out 14 by 14, while \<open>7 * (150 / 72)\<close> is 14.58 and rounds to 15:
  the assignment to \<^verbatim>\<open>canvas.width\<close> cuts the fraction off.
\<close>

theorem canvas_size_counterexample:
  "outputSize (enhanceImage True blank state7) = Some (14, 14) \<and>
   mathRound (Fin (of_nat 7) * (dpi (selectedResolution state7) / Fin 72)) = Fin 15"
proof -
  let ?img = "\<lparr>pic_width = 7, pic_height = 7, pic_data = replicate 196 0\<rparr>"
  have img: "currentImage state7 = Some ?img" by (simp add: state7_def)
  have p: "Fin (of_nat 7) * (dpi (selectedResolution state7) / Fin 72) =
      Fin (8209686820727467 / 562949953421312)"
    by (simp add: state7_def RESOLUTIONS_def eval)
  have d: "canvasDimension fallback (Fin (8209686820727467 / 562949953421312)) = 14" for fallback
    by (simp add: canvasDimension_def integerPart_def)
  have cw: "14 = canvasDimension 300
      (Fin (of_nat (pic_width ?img)) * (dpi (selectedResolution state7) / Fin 72))"
    using p d by simp
  have ch: "14 = canvasDimension 150
      (Fin (of_nat (pic_height ?img)) * (dpi (selectedResolution state7) / Fin 72))"
    using p d by simp
  have "outputSize (enhanceImage True blank state7) = Some (14, 14)"
    using enhanceImage_eq [OF img cw ch, of True blank] by simp
  moreover have "mathRound (Fin (of_nat 7) * (dpi (selectedResolution state7) / Fin 72)) = Fin 15"
    unfolding p by simp
  ultimately show ?thesis by simp
qed

text \<open>
  Claim C8, amended. For every picture with a width and a height above 0 and every
  resolution of 72 dpi or more (every entry of the catalogue), \<^verbatim>\<open>enhanceImage\<close> computes
  \<open>scaleFactor = dpi / 72\<close> and, given a 2D context, produces a picture whose dimensions
  are the products \<open>width * scaleFactor\<close> and \<open>height * scaleFactor\<close>, computed in doubles,
  with the fraction cut off, not rounded (both products below \<open>2 ^ 31\<close>). The output is at
  least as large as the source, so at least 1 by 1; with \<open>dpi = 72\<close> it has exactly the
  source's width and height.
\<close>

theorem canvas_size:
  assumes "currentImage st = Some img" and "0 < pic_width img" and "0 < pic_height img"
    and "dpi (selectedResolution st) = Fin d" and "72 \<le> d"
    and "scaleFactor = Fin d / Fin 72"
    and "Fin (of_nat (pic_width img)) * scaleFactor = Fin pw" and "pw < 2 ^ 31"
    and "Fin (of_nat (pic_height img)) * scaleFactor = Fin ph" and "ph < 2 ^ 31"
  shows "(\<exists>enhanced. enhanceImage True drawImage st =
      Fulfilled (st\<lparr>currentImage :=
        Some \<lparr>pic_width = nat \<lfloor>pw\<rfloor>, pic_height = nat \<lfloor>ph\<rfloor>, pic_data = enhanced\<rparr>,
        isProcessing := False\<rparr>)) \<and>
    outputSize (enhanceImage True drawImage st) = Some (nat \<lfloor>pw\<rfloor>, nat \<lfloor>ph\<rfloor>) \<and>
    pic_width img \<le> nat \<lfloor>pw\<rfloor> \<and> pic_height img \<le> nat \<lfloor>ph\<rfloor> \<and>
    (d = 72 \<longrightarrow> nat \<lfloor>pw\<rfloor> = pic_width img \<and> nat \<lfloor>ph\<rfloor> = pic_height img)"
proof -
  have pw53: "pw < 9007199254740992" and ph53: "ph < 9007199254740992"
    using assms(8,10) by simp_all
  have gw: "of_nat (pic_width img) \<le> pw"
    using scaled_ge [OF assms(2,5) assms(7) [unfolded assms(6)] pw53] .
  have gh: "of_nat (pic_height img) \<le> ph"
    using scaled_ge [OF assms(3,5) assms(9) [unfolded assms(6)] ph53] .
  have fw: "int (pic_width img) \<le> \<lfloor>pw\<rfloor>" using gw by (simp add: le_floor_iff)
  have fh: "int (pic_height img) \<le> \<lfloor>ph\<rfloor>" using gh by (simp add: le_floor_iff)
  have pos: "0 \<le> pw" "0 \<le> ph" using gw gh by linarith+
  have cw: "\<lfloor>pw\<rfloor> = canvasDimension 300
      (Fin (of_nat (pic_width img)) * (dpi (selectedResolution st) / Fin 72))"
    unfolding assms(4) assms(7) [unfolded assms(6)]
    by (rule canvasDimension_floor [OF pos(1) assms(8), symmetric])
  have ch: "\<lfloor>ph\<rfloor> = canvasDimension 150
      (Fin (of_nat (pic_height img)) * (dpi (selectedResolution st) / Fin 72))"
    unfolding assms(4) assms(9) [unfolded assms(6)]
    by (rule canvasDimension_floor [OF pos(2) assms(10), symmetric])
  have nz: "\<lfloor>pw\<rfloor> \<noteq> 0" "\<lfloor>ph\<rfloor> \<noteq> 0" using fw fh assms(2,3) by linarith+
  have run: "enhanceImage True drawImage st =
      Fulfilled (st\<lparr>currentImage :=
        Some \<lparr>pic_width = nat \<lfloor>pw\<rfloor>, pic_height = nat \<lfloor>ph\<rfloor>,
          pic_data = pipeline \<lfloor>pw\<rfloor> \<lfloor>ph\<rfloor> (settings (selectedPreset st))
            (drawImage img \<lfloor>pw\<rfloor> \<lfloor>ph\<rfloor>)\<rparr>,
        isProcessing := False\<rparr>)"
    using enhanceImage_eq [OF assms(1) cw ch, of True drawImage] nz by simp
  have same: "nat \<lfloor>pw\<rfloor> = pic_width img \<and> nat \<lfloor>ph\<rfloor> = pic_height img" if "d = 72"
  proof -
    have "pw = of_nat (pic_width img)"
      using scaled_same [OF assms(7) [unfolded assms(6) that] pw53] .
    moreover have "ph = of_nat (pic_height img)"
      using scaled_same [OF assms(9) [unfolded assms(6) that] ph53] .
    ultimately show ?thesis by simp
  qed
  have size: "outputSize (enhanceImage True drawImage st) = Some (nat \<lfloor>pw\<rfloor>, nat \<lfloor>ph\<rfloor>)"
    unfolding run by simp
  have grow: "pic_width img \<le> nat \<lfloor>pw\<rfloor>" "pic_height img \<le> nat \<lfloor>ph\<rfloor>"
    using fw fh by linarith+
  show ?thesis
    using run size grow same by blast
qed

theorem canvas_size_witness:
  "outputSize (enhanceImage True sameSize state3) = Some (3, 3) \<and>
   outputSize (enhanceImage True blank state7) = Some (14, 14)"
proof -
  let ?img3 = "\<lparr>pic_width = 3, pic_height = 3, pic_data = img3\<rparr>"
  let ?img7 = "\<lparr>pic_width = 7, pic_height = 7, pic_data = replicate 196 0\<rparr>"
  have 3: "currentImage state3 = Some ?img3" "dpi (selectedResolution state3) = Fin 72"
    by (simp_all add: state3_def RESOLUTIONS_def)
  have p3: "Fin (of_nat (pic_width ?img3)) * (Fin 72 / Fin 72) = Fin 3"
    "Fin (of_nat (pic_height ?img3)) * (Fin 72 / Fin 72) = Fin 3"
    using fl_round_of_int [of 3] by simp_all
  from canvas_size [OF 3(1) _ _ 3(2) _ refl p3(1) _ p3(2), of sameSize]
  have a: "outputSize (enhanceImage True sameSize state3) = Some (3, 3)" by simp
  have 7: "currentImage state7 = Some ?img7" "dpi (selectedResolution state7) = Fin 150"
    by (simp_all add: state7_def RESOLUTIONS_def)
  have p7: "Fin (of_nat (pic_width ?img7)) * (Fin 150 / Fin 72) =
      Fin (8209686820727467 / 562949953421312)"
    "Fin (of_nat (pic_height ?img7)) * (Fin 150 / Fin 72) =
      Fin (8209686820727467 / 562949953421312)"
    by (simp_all add: eval)
  have f: "nat \<lfloor>8209686820727467 / 562949953421312 :: rat\<rfloor> = 14" by simp
  from canvas_size [OF 7(1) _ _ 7(2) _ refl p7(1) _ p7(2), of blank]
  have b: "outputSize (enhanceImage True blank state7) = Some (14, 14)"
    unfolding f by simp
  from a b show ?thesis by simp
qed

text \<open>
  Claim C9 as stated asks for an error \<open>InvalidDimension\<close> surfaced to the caller. For a
  picture 0 wide the error in play is the \<open>IndexSizeError\<close> of \<^verbatim>\<open>getImageData\<close>, thrown
  inside the \<^verbatim>\<open>onload\<close> handler, and the caller receives none.
\<close>

theorem zero_dimension_counterexample:
  "raised (enhanceImage True sameSize state0) = Some IndexSizeError \<and>
   surfaced (enhanceImage True sameSize state0) = None"
proof -
  let ?img = "\<lparr>pic_width = 0, pic_height = 5, pic_data = []\<rparr>"
  have img: "currentImage state0 = Some ?img" by (simp add: state0_def)
  have cw: "0 = canvasDimension 300
      (Fin (of_nat (pic_width ?img)) * (dpi (selectedResolution state0) / Fin 72))"
    by simp
  have "enhanceImage True sameSize state0 =
      Unsettled IndexSizeError (state0\<lparr>isProcessing := True\<rparr>)"
    using enhanceImage_eq [OF img cw refl, of True sameSize] by simp
  then show ?thesis by simp
qed

text \<open>
  Claim C9, amended. For every picture whose width or height is 0, whatever the resolution,
  \<^verbatim>\<open>enhanceImage\<close> returns no output buffer, partial or whole: the picture in the state
  is the one it was. The code has no error \<open>InvalidDimension\<close> and no check of the
  dimensions; the one error in play is the \<open>IndexSizeError\<close> that \<^verbatim>\<open>getImageData\<close> throws
  on the empty canvas, when the canvas gave a 2D context.
\<close>

theorem zero_dimension:
  assumes "currentImage st = Some img" and "pic_width img = 0 \<or> pic_height img = 0"
  shows "currentImage (finalState (enhanceImage hasContext drawImage st)) = currentImage st \<and>
    raised (enhanceImage hasContext drawImage st) =
      (if hasContext then Some IndexSizeError else None)"
proof -
  let ?cw = "canvasDimension 300
    (Fin (of_nat (pic_width img)) * (dpi (selectedResolution st) / Fin 72))"
  let ?ch = "canvasDimension 150
    (Fin (of_nat (pic_height img)) * (dpi (selectedResolution st) / Fin 72))"
  have "?cw = 0 \<or> ?ch = 0" using assms(2) by auto
  then have "enhanceImage hasContext drawImage st =
      (if hasContext then Unsettled IndexSizeError (st\<lparr>isProcessing := True\<rparr>)
       else Fulfilled (st\<lparr>isProcessing := False\<rparr>))"
    using enhanceImage_eq [OF assms(1) refl refl, of hasContext drawImage] by auto
  then show ?thesis by simp
qed

theorem zero_dimension_witness:
  "currentImage (finalState (enhanceImage True blank state0h)) = currentImage state0h \<and>
   raised (enhanceImage True blank state0h) = Some IndexSizeError \<and>
   raised (enhanceImage False blank state0h) = None"
proof -
  let ?img = "\<lparr>pic_width = 4, pic_height = 0, pic_data = []\<rparr>"
  have img: "currentImage state0h = Some ?img"
    by (simp add: state0h_def)
  have zero: "pic_width ?img = 0 \<or> pic_height ?img = 0" by simp
  from zero_dimension [OF img zero, of True blank] zero_dimension [OF img zero, of False blank]
  show ?thesis by simp
qed

subsection \<open>Windows in the words of the specification\<close>

lemma map_shift_upto: "map (\<lambda>k. y + k) [i .. j] = [y + i .. y + j]"
proof (induction "nat (j - i + 1)" arbitrary: i)
  case 0
  then show ?case by simp
next
  case (Suc n)
  then have le: "i \<le> j" by simp
  have "n = nat (j - (i + 1) + 1)" using Suc.hyps(2) by simp
  then have "map (\<lambda>k. y + k) [i + 1 .. j] = [y + (i + 1) .. y + j]" by (rule Suc.hyps(1))
  then show ?case using le by (simp add: upto_rec1 [of i j] upto_rec1 [of "y + i" "y + j"] add.assoc)
qed

lemma map_shifted_upto: "map (\<lambda>k. f (y + k)) [i .. j] = map f [y + i .. y + j]"
proof -
  have "map (\<lambda>k. f (y + k)) [i .. j] = map f (map (\<lambda>k. y + k) [i .. j])"
    by (simp add: comp_def)
  then show ?thesis by (simp only: map_shift_upto)
qed

lemma windowValues_block: "windowValues d w r y x c = windowBlock d w r y x c"
proof -
  have row: "map (\<lambda>kx. d ! nat (pixIdx w y' (x + kx) c)) [- r .. r] =
      map (\<lambda>x'. d ! nat (pixIdx w y' x' c)) [x - r .. x + r]" for y'
    using map_shifted_upto [of "\<lambda>x'. d ! nat (pixIdx w y' x' c)" x "- r" r] by simp
  have "map (\<lambda>ky. map (\<lambda>x'. d ! nat (pixIdx w (y + ky) x' c)) [x - r .. x + r]) [- r .. r] =
      map (\<lambda>y'. map (\<lambda>x'. d ! nat (pixIdx w y' x' c)) [x - r .. x + r]) [y - r .. y + r]"
    using map_shifted_upto
      [of "\<lambda>y'. map (\<lambda>x'. d ! nat (pixIdx w y' x' c)) [x - r .. x + r]" y "- r" r]
    by simp
  then show ?thesis
    by (simp add: windowValues_def windowBlock_def window_range_def row)
qed

lemma length_windowBlock:
  "0 \<le> r \<Longrightarrow> length (windowBlock d w r y x c) = nat ((2 * r + 1)\<^sup>2)"
  using length_windowValues [of r d w y x c] by (simp add: windowValues_block)


lemma denoiseByte_eq:
  "denoiseByte d w r s y x c =
    toUint8Clamp (byte (d ! nat (pixIdx w y x c)) * (1 - s) +
      byte (medianOf (windowBlock d w r y x c)) * s)"
  by (simp add: denoiseByte_def Let_def medianOf_def windowValues_block del: one_number)

subsection \<open>The radius of a filter\<close>

lemma radius_nonneg:
  assumes "0 < strength" and "0 < k" and "mathCeil (strength * Fin k) = Fin (of_int r)"
  shows "0 \<le> r"
proof (cases strength)
  case (Fin a)
  then have a: "0 < a" using assms(1) by simp
  then have "0 \<le> a * k" using assms(2) by simp
  from fl_round_nonneg [OF this] show ?thesis
  proof
    assume "fl_round (a * k) = PInf"
    then show ?thesis using assms(3) Fin by simp
  next
    assume "\<exists>y. fl_round (a * k) = Fin y \<and> 0 \<le> y"
    then obtain y where y: "fl_round (a * k) = Fin y" "0 \<le> y" by blast
    then have "(of_int r :: rat) = of_int \<lceil>y\<rceil>" using assms(3) Fin by simp
    then have "r = \<lceil>y\<rceil>" by (simp only: of_int_eq_iff)
    then show ?thesis using y(2) by simp
  qed
next
  case PInf
  then show ?thesis using assms(2,3) by (simp add: times_number_def infinity_def)
next
  case NInf
  then show ?thesis using assms(1) by (simp add: less_number_def)
next
  case NaN
  then show ?thesis using assms(1) by (simp add: less_number_def)
qed

lemma loopRadius_of_int [simp]: "loopRadius (Fin (of_int r)) = Some r"
  by simp

subsection \<open>The local mean\<close>

lemma sum_list_bytes: "\<forall>v \<in> set vs. v \<le> 255 \<Longrightarrow> sum_list vs \<le> 255 * length (vs :: nat list)"
  by (induction vs) auto

lemma localSum_fold:
  assumes "a + sum_list vs < 9007199254740992" and "n + length vs < 9007199254740992"
  shows "fold (\<lambda>v (sum, count). (sum + byte v, count + 1)) vs (Fin (of_nat a), Fin (of_nat n)) =
    (Fin (of_nat (a + sum_list vs)), Fin (of_nat (n + length vs)))"
  using assms
proof (induction vs arbitrary: a n)
  case Nil
  then show ?case by simp
next
  case (Cons v vs)
  have 1: "Fin (of_nat a) + byte v = Fin (of_nat (a + v))"
    using Cons.prems(1) fl_round_of_nat [of "a + v"] by (simp add: byte_def)
  have 2: "Fin (of_nat n) + 1 = Fin (of_nat (Suc n))"
    using Cons.prems(2) fl_round_of_nat [of "Suc n"] by (simp add: add.commute)
  have "fold (\<lambda>v (sum, count). (sum + byte v, count + 1)) (v # vs)
      (Fin (of_nat a), Fin (of_nat n)) =
    fold (\<lambda>v (sum, count). (sum + byte v, count + 1)) vs
      (Fin (of_nat (a + v)), Fin (of_nat (Suc n)))"
    by (simp only: fold_Cons comp_apply prod.case 1 2)
  also have "\<dots> = (Fin (of_nat (a + v + sum_list vs)), Fin (of_nat (Suc n + length vs)))"
    using Cons.prems by (intro Cons.IH) simp_all
  finally show ?case by (simp add: add.assoc)
qed

lemma localSum_exact:
  assumes "\<forall>v \<in> set vs. v \<le> 255" and "length vs * 255 < 9007199254740992"
  shows "localSum vs = (Fin (of_nat (sum_list vs)), Fin (of_nat (length vs)))"
proof -
  have "sum_list vs \<le> 255 * length vs" using assms(1) by (rule sum_list_bytes)
  then have s: "0 + sum_list vs < 9007199254740992" using assms(2) by simp
  have n: "0 + length vs < 9007199254740992" using assms(2) by simp
  show ?thesis
    using localSum_fold [OF s n] by (simp add: localSum_def)
qed

lemma window_in_range:
  assumes "0 \<le> r" and "length d = nat (w * h * 4)"
    and "r \<le> y" "y < h - r" "r \<le> x" "x < w - r" "0 \<le> c" "c < 4"
  shows "\<forall>v \<in> set (windowValues d w r y x c). v \<in> set d"
proof
  fix v assume "v \<in> set (windowValues d w r y x c)"
  then obtain ky kx where k: "- r \<le> ky" "ky \<le> r" "- r \<le> kx" "kx \<le> r"
    and v: "v = d ! nat (pixIdx w (y + ky) (x + kx) c)"
    by (auto simp: windowValues_def)
  have "pixIdx w (y + ky) (x + kx) c < w * h * 4"
    using assms k by (intro pixIdx_less) simp_all
  moreover have "0 \<le> pixIdx w (y + ky) (x + kx) c"
    using assms k by (intro pixIdx_nonneg) simp_all
  ultimately have "nat (pixIdx w (y + ky) (x + kx) c) < length d"
    using assms(2) by (simp add: nat_less_eq_zless)
  then show "v \<in> set d" unfolding v by (rule nth_mem)
qed

lemma deblurDiff_mean:
  assumes "0 \<le> r" and "length d = nat (w * h * 4)" and "\<forall>b \<in> set d. b \<le> 255"
    and "r \<le> y" "y < h - r" "r \<le> x" "x < w - r" "0 \<le> c" "c < 4"
    and "(2 * r + 1)\<^sup>2 * 255 < 9007199254740992"
  shows "deblurDiff d w r y x c = byte (d ! nat (pixIdx w y x c)) - localMean d w r y x c"
proof -
  let ?ws = "windowValues d w r y x c"
  have len: "length ?ws = nat ((2 * r + 1)\<^sup>2)" using assms(1) by (rule length_windowValues)
  have bytes: "\<forall>v \<in> set ?ws. v \<le> 255"
    using window_in_range [OF assms(1,2,4-9)] assms(3) by blast
  have "int (length ?ws * 255) = (2 * r + 1)\<^sup>2 * 255" unfolding len by simp
  then have "length ?ws * 255 < 9007199254740992" using assms(10) by linarith
  from localSum_exact [OF bytes this]
  have s: "localSum ?ws = (Fin (of_nat (sum_list ?ws)), Fin (of_nat (length ?ws)))" .
  have n: "(of_nat (length ?ws) :: rat) = of_int ((2 * r + 1)\<^sup>2)"
    unfolding len by simp
  show ?thesis
    unfolding deblurDiff_def Let_def s prod.case n localMean_def windowValues_block [symmetric] ..
qed

section \<open>The filters\<close>

text \<open>
  Claim C4. For a strength above 0, \<^verbatim>\<open>applyDenoise\<close> uses the window radius
  \<open>r = ceil(strength * 2)\<close>. For every pixel whose whole \<open>(2r+1) \<times> (2r+1)\<close> window lies inside
  the image and each of the three colour channels it stores
  \<open>original * (1 - strength) + median * strength\<close>, the median being the middle one of the
  sorted window values, read from the buffer as it was before the filter. Every pixel within
  \<open>r\<close> of a border is left as it was. (The canvas is \<open>width \<times> height\<close>, both above 0; the
  arithmetic is that of doubles and the store rounds to a byte. A strength so large that
  \<open>strength * 2\<close> is infinite leaves every pixel as it was.)
\<close>

theorem denoise_spec:
  assumes "0 < strength" and "0 < width" and "0 < height"
    and "length ctx = nat (width * height * 4)"
  shows "\<exists>out. applyDenoise ctx width height strength = Inr out \<and>
    length out = length ctx \<and>
    (\<forall>r. mathCeil (strength * Fin 2) = Fin (of_int r) \<longrightarrow>
      0 \<le> r \<and>
      (\<forall>y x c. r \<le> y \<and> y < height - r \<and> r \<le> x \<and> x < width - r \<and> 0 \<le> c \<and> c < 3 \<longrightarrow>
        length (windowBlock ctx width r y x c) = nat ((2 * r + 1)\<^sup>2) \<and>
        out ! nat (pixIdx width y x c) =
          toUint8Clamp (byte (ctx ! nat (pixIdx width y x c)) * (1 - strength) +
            byte (medianOf (windowBlock ctx width r y x c)) * strength)) \<and>
      (\<forall>y x c. 0 \<le> y \<and> y < height \<and> 0 \<le> x \<and> x < width \<and> 0 \<le> c \<and> c < 4 \<and>
          (y < r \<or> height - r \<le> y \<or> x < r \<or> width - r \<le> x) \<longrightarrow>
        out ! nat (pixIdx width y x c) = ctx ! nat (pixIdx width y x c))) \<and>
    (mathCeil (strength * Fin 2) = PInf \<longrightarrow> out = ctx)"
proof -
  let ?out = "denoiseData width height strength ctx"
  have out: "applyDenoise ctx width height strength = Inr ?out"
    using assms(2,3) by (simp add: applyDenoise_eq)
  have len: "length ?out = length ctx"
    using keepsFrame_denoiseData [of ctx width height strength] by (simp add: keepsFrame_def)
  have inf: "?out = ctx" if "mathCeil (strength * Fin 2) = PInf"
    by (simp add: denoiseData_pass that)
  have fin: "0 \<le> r \<and>
      (\<forall>y x c. r \<le> y \<and> y < height - r \<and> r \<le> x \<and> x < width - r \<and> 0 \<le> c \<and> c < 3 \<longrightarrow>
        length (windowBlock ctx width r y x c) = nat ((2 * r + 1)\<^sup>2) \<and>
        ?out ! nat (pixIdx width y x c) =
          toUint8Clamp (byte (ctx ! nat (pixIdx width y x c)) * (1 - strength) +
            byte (medianOf (windowBlock ctx width r y x c)) * strength)) \<and>
      (\<forall>y x c. 0 \<le> y \<and> y < height \<and> 0 \<le> x \<and> x < width \<and> 0 \<le> c \<and> c < 4 \<and>
          (y < r \<or> height - r \<le> y \<or> x < r \<or> width - r \<le> x) \<longrightarrow>
        ?out ! nat (pixIdx width y x c) = ctx ! nat (pixIdx width y x c))"
    if rad: "mathCeil (strength * Fin 2) = Fin (of_int r)" for r
  proof -
    let ?g = "\<lambda>(y, x, c). denoiseByte ctx width r strength y x c"
    have r: "0 \<le> r" using radius_nonneg [OF assms(1) _ rad] by simp
    have eq: "?out = pass (\<lambda>_. True) ?g r width height ctx"
      by (simp add: denoiseData_pass rad)
    have inner: "length (windowBlock ctx width r y x c) = nat ((2 * r + 1)\<^sup>2) \<and>
        ?out ! nat (pixIdx width y x c) =
          toUint8Clamp (byte (ctx ! nat (pixIdx width y x c)) * (1 - strength) +
            byte (medianOf (windowBlock ctx width r y x c)) * strength)"
      if "r \<le> y \<and> y < height - r \<and> r \<le> x \<and> x < width - r \<and> 0 \<le> c \<and> c < 3" for y x c
    proof -
      have "?out ! nat (pixIdx width y x c) = denoiseByte ctx width r strength y x c"
        unfolding eq using that pass_interior [OF r assms(4), of y x c "\<lambda>_. True" ?g]
        by simp
      then show ?thesis
        unfolding denoiseByte_eq using r by (simp add: length_windowBlock del: one_number)
    qed
    have border: "?out ! nat (pixIdx width y x c) = ctx ! nat (pixIdx width y x c)"
      if "0 \<le> y \<and> y < height \<and> 0 \<le> x \<and> x < width \<and> 0 \<le> c \<and> c < 4 \<and>
          (y < r \<or> height - r \<le> y \<or> x < r \<or> width - r \<le> x)" for y x c
      unfolding eq using that by (intro pass_border [OF r]) auto
    show ?thesis using r inner border by blast
  qed
  show ?thesis
    using out len fin inf by (intro exI [of _ ?out]) blast
qed


text \<open>
  The Balanced preset (denoise 0.3, radius 1) on a 3 by 3 picture. The centre pixel holds
  3, 9 and 200, the medians of the three windows are 18, 144 and 100. In doubles
  \<open>3 * 0.7 + 18 * 0.3\<close> is just below 7.5 and \<open>9 * 0.7 + 144 * 0.3\<close> just below 49.5, so
  the bytes stored are 7 and 49.
\<close>

theorem denoise_spec_witness:
  "\<exists>out. applyDenoise imgD 3 3 (denoise balanced) = Inr out \<and>
     out ! 16 = 7 \<and> out ! 17 = 49 \<and> out ! 18 = 170 \<and> out ! 0 = 10"
proof -
  let ?s = "denoise balanced"
  have pos: "0 < ?s" by (simp add: balanced_def ENHANCEMENT_PRESETS_def eval)
  have len: "length imgD = nat (3 * 3 * 4)" by (simp add: imgD_def)
  have rad: "mathCeil (?s * Fin 2) = Fin (of_int 1)"
    by (simp add: balanced_def ENHANCEMENT_PRESETS_def eval)
  from denoise_spec [of ?s 3 3 imgD, OF pos _ _ len] obtain out where
    out: "applyDenoise imgD 3 3 ?s = Inr out"
    and fin: "\<forall>r. mathCeil (?s * Fin 2) = Fin (of_int r) \<longrightarrow>
      0 \<le> r \<and>
      (\<forall>y x c. r \<le> y \<and> y < 3 - r \<and> r \<le> x \<and> x < 3 - r \<and> 0 \<le> c \<and> c < 3 \<longrightarrow>
        length (windowBlock imgD 3 r y x c) = nat ((2 * r + 1)\<^sup>2) \<and>
        out ! nat (pixIdx 3 y x c) =
          toUint8Clamp (byte (imgD ! nat (pixIdx 3 y x c)) * (1 - ?s) +
            byte (medianOf (windowBlock imgD 3 r y x c)) * ?s)) \<and>
      (\<forall>y x c. 0 \<le> y \<and> y < 3 \<and> 0 \<le> x \<and> x < 3 \<and> 0 \<le> c \<and> c < 4 \<and>
          (y < r \<or> 3 - r \<le> y \<or> x < r \<or> 3 - r \<le> x) \<longrightarrow>
        out ! nat (pixIdx 3 y x c) = imgD ! nat (pixIdx 3 y x c))"
    by auto
  from fin [rule_format, OF rad]
  have inner: "\<And>y x c. 1 \<le> y \<and> y < 3 - 1 \<and> 1 \<le> x \<and> x < 3 - 1 \<and> 0 \<le> c \<and> c < 3 \<Longrightarrow>
      out ! nat (pixIdx 3 y x c) =
        toUint8Clamp (byte (imgD ! nat (pixIdx 3 y x c)) * (1 - ?s) +
          byte (medianOf (windowBlock imgD 3 1 y x c)) * ?s)"
    and border: "\<And>y x c. 0 \<le> y \<and> y < 3 \<and> 0 \<le> x \<and> x < 3 \<and> 0 \<le> c \<and> c < 4 \<and>
        (y < 1 \<or> 3 - 1 \<le> y \<or> x < 1 \<or> 3 - 1 \<le> x) \<Longrightarrow>
      out ! nat (pixIdx 3 y x c) = imgD ! nat (pixIdx 3 y x c)"
    by blast+
  have k: "nat (pixIdx 3 1 1 0) = 16" "nat (pixIdx 3 1 1 1) = 17" "nat (pixIdx 3 1 1 2) = 18"
    "nat (pixIdx 3 0 0 0) = 0"
    by (simp_all add: pixIdx_def)
  have o: "imgD ! 16 = 3" "imgD ! 17 = 9" "imgD ! 18 = 200" "imgD ! 0 = 10"
    by (simp_all add: imgD_def)
  have m: "medianOf (windowBlock imgD 3 1 1 1 0) = 18" "medianOf (windowBlock imgD 3 1 1 1 1) = 144"
    "medianOf (windowBlock imgD 3 1 1 1 2) = 100"
    by code_simp+
  have v0: "toUint8Clamp (byte 3 * (1 - ?s) + byte 18 * ?s) = 7"
    by (simp add: balanced_def ENHANCEMENT_PRESETS_def eval)
  have v1: "toUint8Clamp (byte 9 * (1 - ?s) + byte 144 * ?s) = 49"
    by (simp add: balanced_def ENHANCEMENT_PRESETS_def eval)
  have v2: "toUint8Clamp (byte 200 * (1 - ?s) + byte 100 * ?s) = 170"
    by (simp add: balanced_def ENHANCEMENT_PRESETS_def eval)
  have "out ! nat (pixIdx 3 1 1 0) =
      toUint8Clamp (byte (imgD ! nat (pixIdx 3 1 1 0)) * (1 - ?s) +
        byte (medianOf (windowBlock imgD 3 1 1 1 0)) * ?s)"
    by (rule inner) simp
  then have o0: "out ! 16 = 7" unfolding k o m v0 .
  have "out ! nat (pixIdx 3 1 1 1) =
      toUint8Clamp (byte (imgD ! nat (pixIdx 3 1 1 1)) * (1 - ?s) +
        byte (medianOf (windowBlock imgD 3 1 1 1 1)) * ?s)"
    by (rule inner) simp
  then have o1: "out ! 17 = 49" unfolding k o m v1 .
  have "out ! nat (pixIdx 3 1 1 2) =
      toUint8Clamp (byte (imgD ! nat (pixIdx 3 1 1 2)) * (1 - ?s) +
        byte (medianOf (windowBlock imgD 3 1 1 1 2)) * ?s)"
    by (rule inner) simp
  then have o2: "out ! 18 = 170" unfolding k o m v2 .
  have "out ! nat (pixIdx 3 0 0 0) = imgD ! nat (pixIdx 3 0 0 0)" by (rule border) simp
  then have o3: "out ! 0 = 10" unfolding k o .
  from out o0 o1 o2 o3 show ?thesis by blast
qed

text \<open>
  Claim C5. For a strength above 0, \<^verbatim>\<open>applyDeblur\<close> uses \<open>radius = ceil(strength * 3)\<close>,
  \<open>amount = strength * 1.5\<close> and \<open>threshold = 10\<close>. For every pixel with its whole window
  inside the image and each colour channel, \<open>diff\<close> is the original value minus the mean over
  the \<open>(2 * radius + 1)\<^sup>2\<close> window, read from the buffer as it was before the filter; the
  filter stores \<open>clamp(original + diff * amount, 0, 255)\<close> when \<open>|diff| > threshold\<close> and
  leaves the channel as it was otherwise. Pixels within \<open>radius\<close> of a border are left as they
  were. (The canvas is \<open>width \<times> height\<close>, both above 0, and holds bytes; the arithmetic is
  that of doubles and the store rounds to a byte. The sum of a window of fewer than
  \<open>2 ^ 53 / 255\<close> bytes is exact, so the mean is that sum divided by the number of values.
  A strength so large that \<open>strength * 3\<close> is infinite leaves every pixel as it was.)
\<close>

theorem deblur_spec:
  assumes "0 < strength" and "0 < width" and "0 < height"
    and "length ctx = nat (width * height * 4)" and "\<forall>b \<in> set ctx. b \<le> 255"
    and "amount = strength * Fin (3 / 2)" and "threshold = Fin 10"
  shows "\<exists>out. applyDeblur ctx width height strength = Inr out \<and>
    length out = length ctx \<and>
    (\<forall>radius. mathCeil (strength * Fin 3) = Fin (of_int radius) \<longrightarrow>
      0 \<le> radius \<and>
      (\<forall>y x c diff.
        radius \<le> y \<and> y < height - radius \<and> radius \<le> x \<and> x < width - radius \<and>
        0 \<le> c \<and> c < 3 \<and> (2 * radius + 1)\<^sup>2 * 255 < 2 ^ 53 \<and>
        diff = byte (ctx ! nat (pixIdx width y x c)) - localMean ctx width radius y x c \<longrightarrow>
        out ! nat (pixIdx width y x c) =
          (if \<bar>diff\<bar> > threshold
           then toUint8Clamp (clamp255 (byte (ctx ! nat (pixIdx width y x c)) + diff * amount))
           else ctx ! nat (pixIdx width y x c))) \<and>
      (\<forall>y x c. 0 \<le> y \<and> y < height \<and> 0 \<le> x \<and> x < width \<and> 0 \<le> c \<and> c < 4 \<and>
          (y < radius \<or> height - radius \<le> y \<or> x < radius \<or> width - radius \<le> x) \<longrightarrow>
        out ! nat (pixIdx width y x c) = ctx ! nat (pixIdx width y x c))) \<and>
    (mathCeil (strength * Fin 3) = PInf \<longrightarrow> out = ctx)"
proof -
  let ?out = "deblurData width height strength ctx"
  have out: "applyDeblur ctx width height strength = Inr ?out"
    using assms(2,3) by (simp add: applyDeblur_eq)
  have len: "length ?out = length ctx"
    using keepsFrame_deblurData [of ctx width height strength] by (simp add: keepsFrame_def)
  have inf: "?out = ctx" if "mathCeil (strength * Fin 3) = PInf"
    by (simp add: deblurData_pass that)
  have fin: "0 \<le> radius \<and>
      (\<forall>y x c diff.
        radius \<le> y \<and> y < height - radius \<and> radius \<le> x \<and> x < width - radius \<and>
        0 \<le> c \<and> c < 3 \<and> (2 * radius + 1)\<^sup>2 * 255 < 2 ^ 53 \<and>
        diff = byte (ctx ! nat (pixIdx width y x c)) - localMean ctx width radius y x c \<longrightarrow>
        ?out ! nat (pixIdx width y x c) =
          (if \<bar>diff\<bar> > threshold
           then toUint8Clamp (clamp255 (byte (ctx ! nat (pixIdx width y x c)) + diff * amount))
           else ctx ! nat (pixIdx width y x c))) \<and>
      (\<forall>y x c. 0 \<le> y \<and> y < height \<and> 0 \<le> x \<and> x < width \<and> 0 \<le> c \<and> c < 4 \<and>
          (y < radius \<or> height - radius \<le> y \<or> x < radius \<or> width - radius \<le> x) \<longrightarrow>
        ?out ! nat (pixIdx width y x c) = ctx ! nat (pixIdx width y x c))"
    if rad: "mathCeil (strength * Fin 3) = Fin (of_int radius)" for radius
  proof -
    let ?p = "\<lambda>(y, x, c). \<bar>deblurDiff ctx width radius y x c\<bar> > Fin 10"
    let ?g = "\<lambda>(y, x, c). deblurByte ctx width radius (strength * Fin (3 / 2)) y x c"
    have r: "0 \<le> radius" using radius_nonneg [OF assms(1) _ rad] by simp
    have eq: "?out = pass ?p ?g radius width height ctx"
      by (simp add: deblurData_pass rad)
    have inner: "?out ! nat (pixIdx width y x c) =
          (if \<bar>diff\<bar> > threshold
           then toUint8Clamp (clamp255 (byte (ctx ! nat (pixIdx width y x c)) + diff * amount))
           else ctx ! nat (pixIdx width y x c))"
      if h: "radius \<le> y \<and> y < height - radius \<and> radius \<le> x \<and> x < width - radius \<and>
        0 \<le> c \<and> c < 3 \<and> (2 * radius + 1)\<^sup>2 * 255 < 2 ^ 53 \<and>
        diff = byte (ctx ! nat (pixIdx width y x c)) - localMean ctx width radius y x c"
      for y x c diff
    proof -
      have b: "(2 * radius + 1)\<^sup>2 * 255 < 9007199254740992" using h by simp
      have d: "deblurDiff ctx width radius y x c = diff"
        using deblurDiff_mean [OF r assms(4,5), of y x c] h b by simp
      have "?out ! nat (pixIdx width y x c) =
          (if \<bar>deblurDiff ctx width radius y x c\<bar> > Fin 10
           then deblurByte ctx width radius (strength * Fin (3 / 2)) y x c
           else ctx ! nat (pixIdx width y x c))"
        unfolding eq using h pass_interior [OF r assms(4), of y x c ?p ?g] by simp
      then show ?thesis
        unfolding deblurByte_def d assms(6,7) toUint8Clamp_min_max .
    qed
    have border: "?out ! nat (pixIdx width y x c) = ctx ! nat (pixIdx width y x c)"
      if "0 \<le> y \<and> y < height \<and> 0 \<le> x \<and> x < width \<and> 0 \<le> c \<and> c < 4 \<and>
          (y < radius \<or> height - radius \<le> y \<or> x < radius \<or> width - radius \<le> x)" for y x c
      unfolding eq using that by (intro pass_border [OF r]) auto
    show ?thesis using r inner border by blast
  qed
  show ?thesis
    using out len fin inf by (intro exI [of _ ?out]) blast
qed

text \<open>
  The HDR preset (deblur 0.6) on a 5 by 5 picture: \<open>0.6 * 3\<close> is 1.7999999999999998 and the
  radius is 2, the amount \<open>0.6 * 1.5\<close> is 0.8999999999999999. The centre pixel holds 50,
  105 and 250 and the means of the three windows are 85, 100.2 and 19.6. In the red
  channel \<open>50 - 35 * amount\<close> is just above 18.5 and the byte stored is 19; the green
  channel is within the threshold and stays; the blue channel is clamped to 255.
\<close>

theorem deblur_spec_witness:
  "\<exists>out. applyDeblur img5 5 5 (deblur hdr) = Inr out \<and>
     out ! 48 = 19 \<and> out ! 49 = 105 \<and> out ! 50 = 255 \<and> out ! 0 = 97"
proof -
  let ?s = "deblur hdr"
  let ?a = "?s * Fin (3 / 2)"
  have pos: "0 < ?s" by (simp add: hdr_def ENHANCEMENT_PRESETS_def eval)
  have len: "length img5 = nat (5 * 5 * 4)" by (simp add: img5_def)
  have bytes: "\<forall>b \<in> set img5. b \<le> 255" by (simp add: img5_def)
  have rad: "mathCeil (?s * Fin 3) = Fin (of_int 2)"
    by (simp add: hdr_def ENHANCEMENT_PRESETS_def eval)
  have a: "?a = Fin (2026619832316723 / 2251799813685248)"
    by (simp add: hdr_def ENHANCEMENT_PRESETS_def eval)
  from deblur_spec [of ?s 5 5 img5 ?a "Fin 10", OF pos _ _ len bytes refl refl] obtain out where
    out: "applyDeblur img5 5 5 ?s = Inr out"
    and fin: "\<forall>radius. mathCeil (?s * Fin 3) = Fin (of_int radius) \<longrightarrow>
      0 \<le> radius \<and>
      (\<forall>y x c diff.
        radius \<le> y \<and> y < 5 - radius \<and> radius \<le> x \<and> x < 5 - radius \<and>
        0 \<le> c \<and> c < 3 \<and> (2 * radius + 1)\<^sup>2 * 255 < 2 ^ 53 \<and>
        diff = byte (img5 ! nat (pixIdx 5 y x c)) - localMean img5 5 radius y x c \<longrightarrow>
        out ! nat (pixIdx 5 y x c) =
          (if \<bar>diff\<bar> > Fin 10
           then toUint8Clamp (clamp255 (byte (img5 ! nat (pixIdx 5 y x c)) + diff * ?a))
           else img5 ! nat (pixIdx 5 y x c))) \<and>
      (\<forall>y x c. 0 \<le> y \<and> y < 5 \<and> 0 \<le> x \<and> x < 5 \<and> 0 \<le> c \<and> c < 4 \<and>
          (y < radius \<or> 5 - radius \<le> y \<or> x < radius \<or> 5 - radius \<le> x) \<longrightarrow>
        out ! nat (pixIdx 5 y x c) = img5 ! nat (pixIdx 5 y x c))"
    by auto
  from fin [rule_format, OF rad]
  have inner: "\<And>y x c diff.
      2 \<le> y \<and> y < 5 - 2 \<and> 2 \<le> x \<and> x < 5 - 2 \<and> 0 \<le> c \<and> c < 3 \<and>
      (2 * 2 + 1)\<^sup>2 * 255 < (2 ^ 53 :: int) \<and>
      diff = byte (img5 ! nat (pixIdx 5 y x c)) - localMean img5 5 2 y x c \<Longrightarrow>
      out ! nat (pixIdx 5 y x c) =
        (if \<bar>diff\<bar> > Fin 10
         then toUint8Clamp (clamp255 (byte (img5 ! nat (pixIdx 5 y x c)) + diff * ?a))
         else img5 ! nat (pixIdx 5 y x c))"
    and border: "\<And>y x c. 0 \<le> y \<and> y < 5 \<and> 0 \<le> x \<and> x < 5 \<and> 0 \<le> c \<and> c < 4 \<and>
        (y < 2 \<or> 5 - 2 \<le> y \<or> x < 2 \<or> 5 - 2 \<le> x) \<Longrightarrow>
      out ! nat (pixIdx 5 y x c) = img5 ! nat (pixIdx 5 y x c)"
    by blast+
  have k: "nat (pixIdx 5 2 2 0) = 48" "nat (pixIdx 5 2 2 1) = 49" "nat (pixIdx 5 2 2 2) = 50"
    "nat (pixIdx 5 0 0 0) = 0"
    by (simp_all add: pixIdx_def)
  have o: "img5 ! 48 = 50" "img5 ! 49 = 105" "img5 ! 50 = 250" "img5 ! 0 = 97"
    by (simp_all add: img5_def)
  have w: "sum_list (windowBlock img5 5 2 2 2 0) = 2125"
    "sum_list (windowBlock img5 5 2 2 2 1) = 2505"
    "sum_list (windowBlock img5 5 2 2 2 2) = 490"
    by code_simp+
  have d0: "byte 50 - localMean img5 5 2 2 2 0 = Fin (- 35)"
    unfolding localMean_def w by (simp add: eval)
  have d1: "byte 105 - localMean img5 5 2 2 2 1 = Fin (337769972052787 / 70368744177664)"
    unfolding localMean_def w by (simp add: eval)
  have d2: "byte 250 - localMean img5 5 2 2 2 2 = Fin (8106479329266893 / 35184372088832)"
    unfolding localMean_def w by (simp add: eval)
  have v0: "toUint8Clamp (clamp255 (byte 50 + Fin (- 35) * ?a)) = 19"
    unfolding a by (simp add: clamp255_def eval)
  have v2: "toUint8Clamp (clamp255 (byte 250 + Fin (8106479329266893 / 35184372088832) * ?a)) = 255"
    unfolding a by (simp add: clamp255_def eval)
  have "out ! nat (pixIdx 5 2 2 0) =
      (if \<bar>byte (img5 ! nat (pixIdx 5 2 2 0)) - localMean img5 5 2 2 2 0\<bar> > Fin 10
       then toUint8Clamp (clamp255 (byte (img5 ! nat (pixIdx 5 2 2 0)) +
         (byte (img5 ! nat (pixIdx 5 2 2 0)) - localMean img5 5 2 2 2 0) * ?a))
       else img5 ! nat (pixIdx 5 2 2 0))"
    by (rule inner) simp
  then have o0: "out ! 48 = 19" unfolding k o d0 v0 by simp
  have "out ! nat (pixIdx 5 2 2 1) =
      (if \<bar>byte (img5 ! nat (pixIdx 5 2 2 1)) - localMean img5 5 2 2 2 1\<bar> > Fin 10
       then toUint8Clamp (clamp255 (byte (img5 ! nat (pixIdx 5 2 2 1)) +
         (byte (img5 ! nat (pixIdx 5 2 2 1)) - localMean img5 5 2 2 2 1) * ?a))
       else img5 ! nat (pixIdx 5 2 2 1))"
    by (rule inner) simp
  then have o1: "out ! 49 = 105" unfolding k o d1 by simp
  have "out ! nat (pixIdx 5 2 2 2) =
      (if \<bar>byte (img5 ! nat (pixIdx 5 2 2 2)) - localMean img5 5 2 2 2 2\<bar> > Fin 10
       then toUint8Clamp (clamp255 (byte (img5 ! nat (pixIdx 5 2 2 2)) +
         (byte (img5 ! nat (pixIdx 5 2 2 2)) - localMean img5 5 2 2 2 2) * ?a))
       else img5 ! nat (pixIdx 5 2 2 2))"
    by (rule inner) simp
  then have o2: "out ! 50 = 255" unfolding k o d2 v2 by simp
  have "out ! nat (pixIdx 5 0 0 0) = img5 ! nat (pixIdx 5 0 0 0)" by (rule border) simp
  then have o3: "out ! 0 = 97" unfolding k o .
  from out o0 o1 o2 o3 show ?thesis by blast
qed

end
